theory Spec2Isabelle
  imports Main "HOL-Library.AList"
begin


section \<open>Identity values\<close>

text \<open>
  The model follows \<^verbatim>\<open>basyx/aas/model/base.py\<close> and \<^verbatim>\<open>aas/backends.py\<close>.
  Python objects live in a heap indexed by addresses; object identity (\<^verbatim>\<open>is\<close>) is equality
  of addresses. Python strings are modelled as lists of 8-bit characters; \<^verbatim>\<open>str.upper\<close>
  maps the letters a to z to A to Z and leaves every other character, which is what Python
  does on ASCII strings (every id_short accepted by the setter is ASCII).
\<close>

datatype IdentifierType = IRDI | IRI | CUSTOM

datatype KeyElements =
    ASSET_0 | ASSET_ADMINISTRATION_SHELL | CONCEPT_DESCRIPTION | SUBMODEL
  | ACCESS_PERMISSION_RULE | ANNOTATED_RELATIONSHIP_ELEMENT | BASIC_EVENT_ELEMENT | BLOB
  | CAPABILITY | CONCEPT_DICTIONARY | DATA_ELEMENT | ENTITY | EVENT_ELEMENT | FILE
  | MULTI_LANGUAGE_PROPERTY | OPERATION | PROPERTY | RANGE | REFERENCE_ELEMENT
  | RELATIONSHIP_ELEMENT | SUBMODEL_ELEMENT | SUBMODEL_ELEMENT_COLLECTION | VIEW_1018
  | GLOBAL_REFERENCE | FRAGMENT_REFERENCE

datatype KeyType = KeyType_IRDI | KeyType_IRI | KeyType_CUSTOM | IDSHORT | FRAGMENT_ID

definition is_local_key_type :: "KeyType \<Rightarrow> bool" where
  "is_local_key_type t = (t = IDSHORT \<or> t = FRAGMENT_ID)"

definition KeyType_name :: "KeyType \<Rightarrow> string" where
  "KeyType_name t = (case t of KeyType_IRDI \<Rightarrow> ''IRDI'' | KeyType_IRI \<Rightarrow> ''IRI''
     | KeyType_CUSTOM \<Rightarrow> ''CUSTOM'' | IDSHORT \<Rightarrow> ''IDSHORT'' | FRAGMENT_ID \<Rightarrow> ''FRAGMENT_ID'')"

definition IdentifierType_name :: "IdentifierType \<Rightarrow> string" where
  "IdentifierType_name t = (case t of IRDI \<Rightarrow> ''IRDI'' | IRI \<Rightarrow> ''IRI'' | CUSTOM \<Rightarrow> ''CUSTOM'')"

text \<open>\<^verbatim>\<open>KeyType(identifier_type.value)\<close>: the two enumerations share the values 0, 1, 2.\<close>

definition KeyType_of :: "IdentifierType \<Rightarrow> KeyType" where
  "KeyType_of t = (case t of IRDI \<Rightarrow> KeyType_IRDI | IRI \<Rightarrow> KeyType_IRI | CUSTOM \<Rightarrow> KeyType_CUSTOM)"

text \<open>\<^verbatim>\<open>IdentifierType(key_type.value)\<close>; the values 3 and 4 are no IdentifierType.\<close>

definition IdentifierType_of :: "KeyType \<Rightarrow> IdentifierType option" where
  "IdentifierType_of t = (case t of KeyType_IRDI \<Rightarrow> Some IRDI | KeyType_IRI \<Rightarrow> Some IRI
     | KeyType_CUSTOM \<Rightarrow> Some CUSTOM | _ \<Rightarrow> None)"

datatype Identifier = Identifier (identifier_id: string) (identifier_id_type: IdentifierType)

datatype Key = Key (key_type: KeyElements) (key_value: string) (key_id_type: KeyType)

type_synonym ref = nat

datatype pyval = PyNone | PyStr string | PyReference "Key list"

datatype error =
    EmptyString string
  | AASConstraintViolation nat
  | AttributePresent string pyval bool
  | IdShortPresent string
  | HasParent
  | MissingKey
  | NotFoundInNamespaceDict
  | NotInNamespace string
  | NotInOrder
  | CannotBeAdded
  | AttributeError string
  | StopIteration
  | IndexError
  | NotImplementedError
  | GlobalKeyUnresolved Identifier
  | IdShortUnresolved string "string list"
  | NotANamespace "string list"
  | UnexpectedTypeError ref
  | TypeNotImplemented
  | NotEmbedded
  | NoUriScheme string
  | NoBackend string
  | AssertionError

text \<open>The Python exception class of each error, for the \<^verbatim>\<open>except\<close> clauses of the source.\<close>

datatype exception_class =
    KeyError | ValueError | TypeError | AttributeErrorC | StopIterationC | IndexErrorC
  | NotImplementedErrorC | ConstraintViolationC | AssertionErrorC

definition class_of :: "error \<Rightarrow> exception_class" where
  "class_of e = (case e of
       EmptyString _ \<Rightarrow> ValueError
     | AASConstraintViolation _ \<Rightarrow> ConstraintViolationC
     | AttributePresent _ _ _ \<Rightarrow> KeyError
     | IdShortPresent _ \<Rightarrow> KeyError
     | HasParent \<Rightarrow> ValueError
     | MissingKey \<Rightarrow> KeyError
     | NotFoundInNamespaceDict \<Rightarrow> KeyError
     | NotInNamespace _ \<Rightarrow> KeyError
     | NotInOrder \<Rightarrow> ValueError
     | CannotBeAdded \<Rightarrow> ValueError
     | AttributeError _ \<Rightarrow> AttributeErrorC
     | StopIteration \<Rightarrow> StopIterationC
     | IndexError \<Rightarrow> IndexErrorC
     | NotImplementedError \<Rightarrow> NotImplementedErrorC
     | GlobalKeyUnresolved _ \<Rightarrow> KeyError
     | IdShortUnresolved _ _ \<Rightarrow> KeyError
     | NotANamespace _ \<Rightarrow> TypeError
     | UnexpectedTypeError _ \<Rightarrow> TypeError
     | TypeNotImplemented \<Rightarrow> TypeError
     | NotEmbedded \<Rightarrow> ValueError
     | NoUriScheme _ \<Rightarrow> ValueError
     | NoBackend _ \<Rightarrow> KeyError
     | AssertionError \<Rightarrow> AssertionErrorC)"

text \<open>\<^verbatim>\<open>Key.__init__\<close>: constraints AASd-080 and AASd-081.\<close>

definition Key_init :: "KeyElements \<Rightarrow> string \<Rightarrow> KeyType \<Rightarrow> error + Key" where
  "Key_init ktype kvalue id_type =
     (if kvalue = [] then Inl (EmptyString ''value'')
      else if ktype = GLOBAL_REFERENCE \<and> is_local_key_type id_type
        then Inl (AASConstraintViolation 80)
      else if ktype = ASSET_ADMINISTRATION_SHELL \<and> is_local_key_type id_type
        then Inl (AASConstraintViolation 81)
      else Inr (Key ktype kvalue id_type))"

text \<open>
  \<^verbatim>\<open>Key.get_identifier\<close>. The value of a constructed Key is never empty, so the check of
  \<^verbatim>\<open>Identifier.__init__\<close> cannot fail here.
\<close>

definition get_identifier :: "Key \<Rightarrow> Identifier option" where
  "get_identifier k =
     (if is_local_key_type (key_id_type k) then None
      else map_option (Identifier (key_value k)) (IdentifierType_of (key_id_type k)))"

text \<open>\<^verbatim>\<open>str(identifier)\<close>, which is \<^verbatim>\<open>Identifier.__repr__\<close>.\<close>

definition str_Identifier :: "Identifier \<Rightarrow> string" where
  "str_Identifier i =
     ''Identifier('' @ IdentifierType_name (identifier_id_type i) @ ''='' @ identifier_id i @ '')''"

section \<open>Objects, indexed containers and the heap\<close>

definition upper_char :: "char \<Rightarrow> char" where
  "upper_char c =
     (case map_of (zip ''abcdefghijklmnopqrstuvwxyz'' ''ABCDEFGHIJKLMNOPQRSTUVWXYZ'') c of
        Some u \<Rightarrow> u | None \<Rightarrow> c)"

definition upper :: "string \<Rightarrow> string" where
  "upper s = map upper_char s"

text \<open>
  A Python dict is an association list in insertion order: \<open>map_of\<close> reads it,
  \<open>AList.update\<close> assigns (in place when the key is there, at the end otherwise) and
  \<open>AList.delete\<close> deletes.
\<close>

type_synonym index_dict = "(pyval \<times> ref) list"

text \<open>
  \<^verbatim>\<open>NamespaceSet\<close>: \<open>backend\<close> is \<^verbatim>\<open>_backend\<close>, the dict from attribute name to the pair of
  index dict and case-sensitivity flag; \<open>order\<close> is \<^verbatim>\<open>_order\<close>, present for an
  \<^verbatim>\<open>OrderedNamespaceSet\<close> only; \<open>held_as\<close> is the name of the instance variable of the owner
  that holds the set (it is what \<^verbatim>\<open>vars()\<close> reports in \<^verbatim>\<open>update_from\<close>).
\<close>

record NamespaceSet =
  held_as :: string
  backend :: "(string \<times> (index_dict \<times> bool)) list"
  order :: "ref list option"

text \<open>
  One record for every object a set can hold or be owned by. \<open>mro\<close> is the list of the names
  of the classes of the object (\<^verbatim>\<open>inspect.getmro(type(x))\<close>), so that \<^verbatim>\<open>isinstance\<close> is
  membership. \<open>identification\<close> is meaningful for an \<^verbatim>\<open>Identifiable\<close>, \<open>id_short\<close> for a
  \<^verbatim>\<open>Referable\<close>, \<open>qualifier_type\<close> (the attribute \<^verbatim>\<open>type\<close>) for a \<^verbatim>\<open>Qualifier\<close>,
  \<open>extension_name\<close> (the attribute \<^verbatim>\<open>name\<close>) for an \<^verbatim>\<open>Extension\<close> and \<open>semantic_id\<close> for a
  \<^verbatim>\<open>HasSemantics\<close>. \<open>plain_vars\<close> are the remaining plain instance variables. A set is
  owned by value: the \<open>i\<close>-th entry of \<open>namespace_element_sets\<close> of its owner, since the
  constructor registers every set with its \<^verbatim>\<open>parent\<close>.
\<close>

record obj =
  mro :: "string list"
  identification :: Identifier
  id_short :: string
  qualifier_type :: string
  extension_name :: string
  semantic_id :: pyval
  parent :: "ref option"
  source :: string
  plain_vars :: "(string \<times> pyval) list"
  namespace_element_sets :: "NamespaceSet list"

definition isinstance :: "obj \<Rightarrow> string \<Rightarrow> bool" where
  "isinstance x class_name = (class_name \<in> set (mro x))"

type_synonym heap = "ref \<Rightarrow> obj"

type_synonym set_ref = "ref \<times> nat"

text \<open>A set reference is valid when the owner has a set at that position.\<close>

definition valid_set :: "heap \<Rightarrow> set_ref \<Rightarrow> bool" where
  "valid_set h s = (snd s < length (namespace_element_sets (h (fst s))))"

definition the_set :: "heap \<Rightarrow> set_ref \<Rightarrow> NamespaceSet" where
  "the_set h s = namespace_element_sets (h (fst s)) ! snd s"

definition put_set :: "heap \<Rightarrow> set_ref \<Rightarrow> NamespaceSet \<Rightarrow> heap" where
  "put_set h s n =
     h(fst s := (h (fst s))\<lparr>namespace_element_sets := (namespace_element_sets (h (fst s)))[snd s := n]\<rparr>)"

definition set_parent :: "heap \<Rightarrow> ref \<Rightarrow> ref option \<Rightarrow> heap" where
  "set_parent h x p = h(x := (h x)\<lparr>parent := p\<rparr>)"

text \<open>
  \<^verbatim>\<open>getattr(x, attr_name)\<close> for the four attributes that the sets of the source index
  (\<^verbatim>\<open>id_short\<close>, \<^verbatim>\<open>semantic_id\<close>, \<^verbatim>\<open>type\<close>, \<^verbatim>\<open>name\<close>); \<open>None\<close> is \<^verbatim>\<open>AttributeError\<close>, so
  \<^verbatim>\<open>hasattr\<close> is \<open>getattr x a \<noteq> None\<close>.
\<close>

definition getattr :: "obj \<Rightarrow> string \<Rightarrow> pyval option" where
  "getattr x attr_name =
     (if attr_name = ''id_short'' \<and> isinstance x ''Referable'' then Some (PyStr (id_short x))
      else if attr_name = ''semantic_id'' \<and> isinstance x ''HasSemantics'' then Some (semantic_id x)
      else if attr_name = ''type'' \<and> isinstance x ''Qualifier'' then Some (PyStr (qualifier_type x))
      else if attr_name = ''name'' \<and> isinstance x ''Extension'' then Some (PyStr (extension_name x))
      else None)"

definition fold_case :: "bool \<Rightarrow> pyval \<Rightarrow> pyval" where
  "fold_case case_sensitive v =
     (case v of PyStr s \<Rightarrow> if case_sensitive then v else PyStr (upper s) | _ \<Rightarrow> v)"

text \<open>\<^verbatim>\<open>NamespaceSet._get_attribute\<close>\<close>

definition get_attribute :: "obj \<Rightarrow> string \<Rightarrow> bool \<Rightarrow> error + pyval" where
  "get_attribute x attr_name case_sensitive =
     (case getattr x attr_name of
        None \<Rightarrow> Inl (AttributeError attr_name)
      | Some v \<Rightarrow> Inr (fold_case case_sensitive v))"

definition get_attribute_name_list :: "NamespaceSet \<Rightarrow> string list" where
  "get_attribute_name_list s = map fst (backend s)"

text \<open>\<^verbatim>\<open>NamespaceSet.contains_id\<close>\<close>

definition contains_id :: "NamespaceSet \<Rightarrow> string \<Rightarrow> pyval \<Rightarrow> bool" where
  "contains_id s attribute_name identifier =
     (case map_of (backend s) attribute_name of
        None \<Rightarrow> False
      | Some (b, case_sensitive) \<Rightarrow> map_of b (fold_case case_sensitive identifier) \<noteq> None)"

text \<open>\<^verbatim>\<open>NamespaceSet.__contains__\<close>; \<^verbatim>\<open>next(iter(self._backend))\<close> raises on a set with no attribute.\<close>

definition contains :: "heap \<Rightarrow> set_ref \<Rightarrow> ref \<Rightarrow> error + bool" where
  "contains h self x =
     (case backend (the_set h self) of
        [] \<Rightarrow> Inl StopIteration
      | (attr_name, (b, case_sensitive)) # _ \<Rightarrow>
          (case get_attribute (h x) attr_name case_sensitive of
             Inl _ \<Rightarrow> Inr False
           | Inr attr_value \<Rightarrow> Inr (map_of b attr_value = Some x)))"

text \<open>\<^verbatim>\<open>__iter__\<close> of \<^verbatim>\<open>NamespaceSet\<close> and of \<^verbatim>\<open>OrderedNamespaceSet\<close>\<close>

definition iter :: "NamespaceSet \<Rightarrow> error + ref list" where
  "iter s =
     (case order s of
        Some xs \<Rightarrow> Inr xs
      | None \<Rightarrow> (case backend s of [] \<Rightarrow> Inl StopIteration | (_, (b, _)) # _ \<Rightarrow> Inr (map snd b)))"

text \<open>\<^verbatim>\<open>NamespaceSet.get_object_by_attribute\<close>, called with a string.\<close>

definition get_object_by_attribute :: "NamespaceSet \<Rightarrow> string \<Rightarrow> string \<Rightarrow> error + ref" where
  "get_object_by_attribute s attribute_name attribute_value =
     (case map_of (backend s) attribute_name of
        None \<Rightarrow> Inl MissingKey
      | Some (b, case_sensitive) \<Rightarrow>
          (case map_of b (PyStr (if case_sensitive then attribute_value else upper attribute_value)) of
             None \<Rightarrow> Inl MissingKey
           | Some x \<Rightarrow> Inr x))"

subsection \<open>add\<close>

text \<open>
  The uniqueness check of \<^verbatim>\<open>NamespaceSet.add\<close>: every set of the owner, every attribute it
  tracks. \<open>this\<close> is \<^verbatim>\<open>set_ is self\<close>, which only selects the wording of the message.
\<close>

fun check_backend :: "obj \<Rightarrow> bool \<Rightarrow> (string \<times> (index_dict \<times> bool)) list \<Rightarrow> error option" where
  "check_backend x this [] = None"
| "check_backend x this ((attr_name, (b, case_sensitive)) # rest) =
     (case getattr x attr_name of
        None \<Rightarrow> check_backend x this rest
      | Some v \<Rightarrow>
          if map_of b (fold_case case_sensitive v) \<noteq> None
          then Some (AttributePresent attr_name v this)
          else check_backend x this rest)"

fun check_sets :: "obj \<Rightarrow> nat \<Rightarrow> nat \<Rightarrow> NamespaceSet list \<Rightarrow> error option" where
  "check_sets x self_ix j [] = None"
| "check_sets x self_ix j (s # ss) =
     (case check_backend x (j = self_ix) (backend s) of
        Some e \<Rightarrow> Some e
      | None \<Rightarrow> check_sets x self_ix (Suc j) ss)"

text \<open>
  The last loop of \<^verbatim>\<open>add\<close>: the item is stored under every attribute of this set, in dict
  order; an item that lacks an attribute raises after the earlier ones were stored.
\<close>

fun index_item ::
  "obj \<Rightarrow> ref \<Rightarrow> (string \<times> (index_dict \<times> bool)) list
     \<Rightarrow> error option \<times> (string \<times> (index_dict \<times> bool)) list" where
  "index_item x r [] = (None, [])"
| "index_item x r ((attr_name, (b, case_sensitive)) # rest) =
     (case get_attribute x attr_name case_sensitive of
        Inl e \<Rightarrow> (Some e, (attr_name, (b, case_sensitive)) # rest)
      | Inr k \<Rightarrow>
          (case index_item x r rest of
             (e, rest') \<Rightarrow> (e, (attr_name, (AList.update k r b, case_sensitive)) # rest')))"

text \<open>\<^verbatim>\<open>NamespaceSet.add\<close>; the result is the exception raised, if any, and the heap left behind.\<close>

definition NamespaceSet_add :: "heap \<Rightarrow> set_ref \<Rightarrow> ref \<Rightarrow> error option \<times> heap" where
  "NamespaceSet_add h self v =
     (case check_sets (h v) (snd self) 0 (namespace_element_sets (h (fst self))) of
        Some e \<Rightarrow> (Some e, h)
      | None \<Rightarrow>
          if parent (h v) \<noteq> None \<and> parent (h v) \<noteq> Some (fst self) then (Some HasParent, h)
          else
            (let h1 = set_parent h v (Some (fst self));
                 s = the_set h1 self;
                 (e, bk) = index_item (h1 v) v (backend s)
             in (e, put_set h1 self (s\<lparr>backend := bk\<rparr>))))"

text \<open>\<^verbatim>\<open>OrderedNamespaceSet.add\<close> appends to \<^verbatim>\<open>_order\<close> after the base class succeeded.\<close>

definition order_append :: "heap \<Rightarrow> set_ref \<Rightarrow> ref \<Rightarrow> heap" where
  "order_append h self v =
     (let s = the_set h self in put_set h self (s\<lparr>order := map_option (\<lambda>xs. xs @ [v]) (order s)\<rparr>))"

definition add :: "heap \<Rightarrow> set_ref \<Rightarrow> ref \<Rightarrow> error option \<times> heap" where
  "add h self v =
     (case NamespaceSet_add h self v of
        (Some e, h') \<Rightarrow> (Some e, h')
      | (None, h') \<Rightarrow> (None, order_append h' self v))"

subsection \<open>remove, discard, clear\<close>

text \<open>
  The first loop of \<^verbatim>\<open>NamespaceSet.remove\<close>: \<^verbatim>\<open>backend[...]\<close> raises on a missing key, and
  \<^verbatim>\<open>item_found\<close> is set when some attribute maps to the very item.
\<close>

fun lookup_item :: "obj \<Rightarrow> ref \<Rightarrow> (string \<times> (index_dict \<times> bool)) list \<Rightarrow> error + bool" where
  "lookup_item x r [] = Inr False"
| "lookup_item x r ((attr_name, (b, case_sensitive)) # rest) =
     (case get_attribute x attr_name case_sensitive of
        Inl e \<Rightarrow> Inl e
      | Inr k \<Rightarrow>
          (case map_of b k of
             None \<Rightarrow> Inl MissingKey
           | Some y \<Rightarrow>
               (case lookup_item x r rest of
                  Inl e \<Rightarrow> Inl e
                | Inr item_found \<Rightarrow> Inr (y = r \<or> item_found))))"

text \<open>The second loop of \<^verbatim>\<open>remove\<close>: \<^verbatim>\<open>del backend[...]\<close> under every attribute.\<close>

fun unindex_item ::
  "obj \<Rightarrow> (string \<times> (index_dict \<times> bool)) list
     \<Rightarrow> error option \<times> (string \<times> (index_dict \<times> bool)) list" where
  "unindex_item x [] = (None, [])"
| "unindex_item x ((attr_name, (b, case_sensitive)) # rest) =
     (case get_attribute x attr_name case_sensitive of
        Inl e \<Rightarrow> (Some e, (attr_name, (b, case_sensitive)) # rest)
      | Inr k \<Rightarrow>
          if map_of b k = None then (Some MissingKey, (attr_name, (b, case_sensitive)) # rest)
          else
            (case unindex_item x rest of
               (e, rest') \<Rightarrow> (e, (attr_name, (AList.delete k b, case_sensitive)) # rest')))"

definition NamespaceSet_remove :: "heap \<Rightarrow> set_ref \<Rightarrow> ref \<Rightarrow> error option \<times> heap" where
  "NamespaceSet_remove h self item =
     (case lookup_item (h item) item (backend (the_set h self)) of
        Inl e \<Rightarrow> (Some e, h)
      | Inr False \<Rightarrow> (Some NotFoundInNamespaceDict, h)
      | Inr True \<Rightarrow>
          (let h1 = set_parent h item None;
               s = the_set h1 self;
               (e, bk) = unindex_item (h1 item) (backend s)
           in (e, put_set h1 self (s\<lparr>backend := bk\<rparr>))))"

text \<open>
  \<^verbatim>\<open>OrderedNamespaceSet.remove\<close> for an item (not a tuple): \<^verbatim>\<open>list.remove\<close> takes the first
  occurrence out of \<^verbatim>\<open>_order\<close> and raises when there is none.
\<close>

definition remove :: "heap \<Rightarrow> set_ref \<Rightarrow> ref \<Rightarrow> error option \<times> heap" where
  "remove h self item =
     (case NamespaceSet_remove h self item of
        (Some e, h') \<Rightarrow> (Some e, h')
      | (None, h') \<Rightarrow>
          (case order (the_set h' self) of
             None \<Rightarrow> (None, h')
           | Some xs \<Rightarrow>
               if item \<in> set xs
               then (None, put_set h' self ((the_set h' self)\<lparr>order := Some (remove1 item xs)\<rparr>))
               else (Some NotInOrder, h')))"

definition discard :: "heap \<Rightarrow> set_ref \<Rightarrow> ref \<Rightarrow> error option \<times> heap" where
  "discard h self x =
     (case contains h self x of
        Inl e \<Rightarrow> (Some e, h)
      | Inr False \<Rightarrow> (None, h)
      | Inr True \<Rightarrow> remove h self x)"

text \<open>The objects held in any index dict of a set.\<close>

definition entries_values :: "(string \<times> (index_dict \<times> bool)) list \<Rightarrow> ref list" where
  "entries_values bk = concat (map (\<lambda>(attr_name, (b, case_sensitive)). map snd b) bk)"

definition indexed_values :: "NamespaceSet \<Rightarrow> ref list" where
  "indexed_values s = entries_values (backend s)"

text \<open>
  \<^verbatim>\<open>NamespaceSet.clear\<close>: the parent of every indexed value is reset, then every index
  dict is emptied. \<^verbatim>\<open>OrderedNamespaceSet.clear\<close> also empties \<^verbatim>\<open>_order\<close>.
\<close>

definition clear :: "heap \<Rightarrow> set_ref \<Rightarrow> heap" where
  "clear h self =
     (let h1 = fold (\<lambda>x g. set_parent g x None) (indexed_values (the_set h self)) h;
          s = the_set h1 self
      in put_set h1 self
           (s\<lparr>backend := map (\<lambda>(attr_name, (b, case_sensitive)). (attr_name, ([], case_sensitive))) (backend s),
              order := map_option (\<lambda>xs. []) (order s)\<rparr>))"

subsection \<open>Construction\<close>

definition new_set :: "string \<Rightarrow> (string \<times> bool) list \<Rightarrow> bool \<Rightarrow> NamespaceSet" where
  "new_set var attribute_names ordered =
     \<lparr>held_as = var,
      backend = fold (\<lambda>(name, case_sensitive) bk. AList.update name ([], case_sensitive) bk)
                  attribute_names [],
      order = (if ordered then Some [] else None)\<rparr>"

fun add_all :: "heap \<Rightarrow> set_ref \<Rightarrow> ref list \<Rightarrow> error option \<times> heap" where
  "add_all h self [] = (None, h)"
| "add_all h self (i # items) =
     (case add h self i of
        (Some e, h') \<Rightarrow> (Some e, h')
      | (None, h') \<Rightarrow> add_all h' self items)"

text \<open>
  \<^verbatim>\<open>NamespaceSet.__init__\<close> and \<^verbatim>\<open>OrderedNamespaceSet.__init__\<close> (\<open>ordered\<close>): the set is
  registered with its owner, the items are added one by one, and any exception clears the
  set before it is raised again. The new set is the last one of the owner.
\<close>

definition register_set :: "heap \<Rightarrow> ref \<Rightarrow> NamespaceSet \<Rightarrow> heap" where
  "register_set h owner s =
     h(owner := (h owner)\<lparr>namespace_element_sets := namespace_element_sets (h owner) @ [s]\<rparr>)"

definition NamespaceSet_init ::
  "heap \<Rightarrow> ref \<Rightarrow> string \<Rightarrow> (string \<times> bool) list \<Rightarrow> bool \<Rightarrow> ref list \<Rightarrow> error option \<times> heap" where
  "NamespaceSet_init h owner var attribute_names ordered items =
     (let self = (owner, length (namespace_element_sets (h owner)));
          h1 = register_set h owner (new_set var attribute_names ordered)
      in case add_all h1 self items of
           (Some e, h2) \<Rightarrow> (Some e, clear h2 self)
         | (None, h2) \<Rightarrow> (None, h2))"

text \<open>The items of a bulk insertion that were added before the first failure.\<close>

fun added_items :: "heap \<Rightarrow> set_ref \<Rightarrow> ref list \<Rightarrow> ref list" where
  "added_items h self [] = []"
| "added_items h self (i # items) =
     (case add h self i of
        (Some e, h') \<Rightarrow> []
      | (None, h') \<Rightarrow> i # added_items h' self items)"

subsection \<open>Collisions\<close>

text \<open>
  An index entry (attribute name, index dict, case-sensitivity) collides with an object when
  the object carries the attribute and its folded value is a key of the dict; an object
  collides with a list of sets when it collides with some entry of some set.
\<close>

definition entry_collides :: "obj \<Rightarrow> string \<times> (index_dict \<times> bool) \<Rightarrow> bool" where
  "entry_collides x e =
     (case getattr x (fst e) of
        None \<Rightarrow> False
      | Some v \<Rightarrow> map_of (fst (snd e)) (fold_case (snd (snd e)) v) \<noteq> None)"

definition collides :: "obj \<Rightarrow> NamespaceSet list \<Rightarrow> bool" where
  "collides x sets = (\<exists>s \<in> set sets. \<exists>e \<in> set (backend s). entry_collides x e)"

section \<open>Reconciliation of two sets\<close>

text \<open>
  The assignments of \<^verbatim>\<open>Referable.update_from\<close> for the variables that hold no set:
  \<^verbatim>\<open>vars(other)\<close> has \<^verbatim>\<open>_id_short\<close> for a Referable, \<^verbatim>\<open>identification\<close> for an Identifiable,
  \<^verbatim>\<open>_semantic_id\<close> for a HasSemantics, \<^verbatim>\<open>_type\<close> for a Qualifier, \<^verbatim>\<open>_name\<close> for an Extension,
  \<^verbatim>\<open>source\<close> (copied when \<^verbatim>\<open>update_source\<close> is set) and the remaining plain variables;
  \<^verbatim>\<open>parent\<close> and \<^verbatim>\<open>namespace_element_sets\<close> are skipped. The variables are written into
  \<^verbatim>\<open>vars(self)\<close> directly, not through the setters.
\<close>

definition merge_plain :: "obj \<Rightarrow> obj \<Rightarrow> bool \<Rightarrow> obj" where
  "merge_plain self other update_source =
     self\<lparr>id_short := (if isinstance other ''Referable'' then id_short other else id_short self),
          identification :=
            (if isinstance other ''Identifiable'' then identification other else identification self),
          semantic_id :=
            (if isinstance other ''HasSemantics'' then semantic_id other else semantic_id self),
          qualifier_type :=
            (if isinstance other ''Qualifier'' then qualifier_type other else qualifier_type self),
          extension_name :=
            (if isinstance other ''Extension'' then extension_name other else extension_name self),
          source := (if update_source then source other else source self),
          plain_vars := fold (\<lambda>(name, var) vs. AList.update name var vs) (plain_vars other) (plain_vars self)\<rparr>"











section \<open>The ordered container\<close>

text \<open>
  The index that \<^verbatim>\<open>list.insert\<close> and a slice bound use for a list of length \<open>n\<close>: a
  negative index counts from the end, and the result is clamped to \<open>0 .. n\<close>.
\<close>

definition clamp_index :: "nat \<Rightarrow> int \<Rightarrow> nat" where
  "clamp_index n i = (if i < 0 then nat (max 0 (i + int n)) else min (nat i) n)"

text \<open>The position that \<^verbatim>\<open>xs[i]\<close> reads or writes; out of range is IndexError.\<close>

definition item_index :: "nat \<Rightarrow> int \<Rightarrow> error + nat" where
  "item_index n i =
     (let j = (if i < 0 then i + int n else i)
      in if 0 \<le> j \<and> j < int n then Inr (nat j) else Inl IndexError)"

text \<open>The bounds of the slice \<^verbatim>\<open>xs[start:stop]\<close> (no step).\<close>

definition slice_bounds :: "nat \<Rightarrow> int \<times> int \<Rightarrow> nat \<times> nat" where
  "slice_bounds n s =
     (let a = clamp_index n (fst s); b = clamp_index n (snd s) in (a, max a b))"

definition the_order :: "heap \<Rightarrow> set_ref \<Rightarrow> ref list" where
  "the_order h self = (case order (the_set h self) of Some xs \<Rightarrow> xs | None \<Rightarrow> [])"

definition put_order :: "heap \<Rightarrow> set_ref \<Rightarrow> ref list \<Rightarrow> heap" where
  "put_order h self xs = put_set h self ((the_set h self)\<lparr>order := Some xs\<rparr>)"

text \<open>\<^verbatim>\<open>OrderedNamespaceSet.insert\<close>\<close>

definition insert_at :: "heap \<Rightarrow> set_ref \<Rightarrow> int \<Rightarrow> ref \<Rightarrow> error option \<times> heap" where
  "insert_at h self index x =
     (case NamespaceSet_add h self x of
        (Some e, h') \<Rightarrow> (Some e, h')
      | (None, h') \<Rightarrow>
          (let xs = the_order h' self; k = clamp_index (length xs) index
           in (None, put_order h' self (take k xs @ [x] @ drop k xs))))"

text \<open>\<^verbatim>\<open>OrderedNamespaceSet.__getitem__\<close> with an integer.\<close>

definition getitem :: "heap \<Rightarrow> set_ref \<Rightarrow> int \<Rightarrow> error + ref" where
  "getitem h self i =
     (let xs = the_order h self
      in case item_index (length xs) i of Inl e \<Rightarrow> Inl e | Inr j \<Rightarrow> Inr (xs ! j))"

fun remove_each :: "heap \<Rightarrow> set_ref \<Rightarrow> ref list \<Rightarrow> error option \<times> heap" where
  "remove_each h self [] = (None, h)"
| "remove_each h self (i # items) =
     (case NamespaceSet_remove h self i of
        (Some e, h') \<Rightarrow> (Some e, h')
      | (None, h') \<Rightarrow> remove_each h' self items)"

text \<open>\<^verbatim>\<open>OrderedNamespaceSet.__setitem__\<close> with an integer.\<close>

definition setitem :: "heap \<Rightarrow> set_ref \<Rightarrow> int \<Rightarrow> ref \<Rightarrow> error option \<times> heap" where
  "setitem h self i x =
     (let xs = the_order h self
      in case item_index (length xs) i of
           Inl e \<Rightarrow> (Some e, h)
         | Inr j \<Rightarrow>
             (case NamespaceSet_add h self x of
                (Some e, h') \<Rightarrow> (Some e, h')
              | (None, h') \<Rightarrow>
                  remove_each (put_order h' self ((the_order h' self)[j := x])) self [xs ! j]))"

text \<open>
  The loop of the slice branch of \<^verbatim>\<open>__setitem__\<close>: the new items are added through the
  base class; when one fails, those added so far are removed again and the exception is
  raised. The result also tells how many items were taken from the iterator.
\<close>

fun add_each :: "heap \<Rightarrow> set_ref \<Rightarrow> ref list \<Rightarrow> ref list \<Rightarrow> error option \<times> heap" where
  "add_each h self successful_new_items [] = (None, h)"
| "add_each h self successful_new_items (i # new_items) =
     (case NamespaceSet_add h self i of
        (Some e, h') \<Rightarrow>
          (case remove_each h' self successful_new_items of
             (Some e', h'') \<Rightarrow> (Some e', h'')
           | (None, h'') \<Rightarrow> (Some e, h''))
      | (None, h') \<Rightarrow> add_each h' self (successful_new_items @ [i]) new_items)"

text \<open>
  \<^verbatim>\<open>OrderedNamespaceSet.__setitem__\<close> with a slice. \<^verbatim>\<open>new_items\<close> is the iterator
  \<^verbatim>\<open>itertools.islice(o, len(deleted_items))\<close>; the loop consumes it to its end, so the
  assignment \<^verbatim>\<open>self._order[s] = new_items\<close> that follows the loop receives an exhausted
  iterator and puts nothing in the place of the slice.
\<close>

definition setitem_slice :: "heap \<Rightarrow> set_ref \<Rightarrow> int \<times> int \<Rightarrow> ref list \<Rightarrow> error option \<times> heap" where
  "setitem_slice h self s items =
     (let xs = the_order h self;
          (a, b) = slice_bounds (length xs) s;
          deleted_items = take (b - a) (drop a xs);
          new_items = take (length deleted_items) items
      in case add_each h self [] new_items of
           (Some e, h') \<Rightarrow> (Some e, h')
         | (None, h') \<Rightarrow>
             (let exhausted = drop (length new_items) new_items
              in remove_each (put_order h' self (take a (the_order h' self) @ exhausted @ drop b (the_order h' self)))
                   self deleted_items))"

text \<open>\<^verbatim>\<open>OrderedNamespaceSet.__delitem__\<close>: an integer \<open>i\<close> is the slice from \<open>i\<close> to \<open>i + 1\<close>.\<close>

definition delitem_slice :: "heap \<Rightarrow> set_ref \<Rightarrow> int \<times> int \<Rightarrow> error option \<times> heap" where
  "delitem_slice h self s =
     (let xs = the_order h self;
          (a, b) = slice_bounds (length xs) s
      in case remove_each h self (take (b - a) (drop a xs)) of
           (Some e, h') \<Rightarrow> (Some e, h')
         | (None, h') \<Rightarrow> (None, put_order h' self (take a (the_order h' self) @ drop b (the_order h' self))))"

definition delitem :: "heap \<Rightarrow> set_ref \<Rightarrow> int \<Rightarrow> error option \<times> heap" where
  "delitem h self i = delitem_slice h self (i, i + 1)"

subsection \<open>Renaming a contained element\<close>

definition ascii_letters :: string where
  "ascii_letters = ''abcdefghijklmnopqrstuvwxyzABCDEFGHIJKLMNOPQRSTUVWXYZ''"

text \<open>The character class \<^verbatim>\<open>[a-zA-Z0-9_]\<close>, and \<^verbatim>\<open>str.isalpha\<close> on a character of that class.\<close>

definition word_char :: "char \<Rightarrow> bool" where
  "word_char c = (c \<in> set (ascii_letters @ ''0123456789_''))"

definition isalpha :: "char \<Rightarrow> bool" where
  "isalpha c = (c \<in> set ascii_letters)"

text \<open>
  The second loop of the setter: every set of the parent that contains the element is
  remembered (by its position) and the element is discarded from it. The list of sets is
  the one the parent had when the loop began.
\<close>

fun detach :: "heap \<Rightarrow> ref \<Rightarrow> ref \<Rightarrow> nat list \<Rightarrow> error option \<times> heap \<times> nat list" where
  "detach h p x [] = (None, h, [])"
| "detach h p x (j # js) =
     (case contains h (p, j) x of
        Inl e \<Rightarrow> (Some e, h, [])
      | Inr False \<Rightarrow> detach h p x js
      | Inr True \<Rightarrow>
          (case discard h (p, j) x of
             (Some e, h') \<Rightarrow> (Some e, h', [])
           | (None, h') \<Rightarrow>
               (case detach h' p x js of
                  (e, h'', set_add_list) \<Rightarrow> (e, h'', j # set_add_list))))"

fun reattach :: "heap \<Rightarrow> ref \<Rightarrow> ref \<Rightarrow> nat list \<Rightarrow> error option \<times> heap" where
  "reattach h p x [] = (None, h)"
| "reattach h p x (j # js) =
     (case add h (p, j) x of
        (Some e, h') \<Rightarrow> (Some e, h')
      | (None, h') \<Rightarrow> reattach h' p x js)"

definition write_id_short :: "heap \<Rightarrow> ref \<Rightarrow> string \<Rightarrow> heap" where
  "write_id_short h x new = h(x := (h x)\<lparr>id_short := new\<rparr>)"

text \<open>\<^verbatim>\<open>Referable._set_id_short\<close>, the setter of the property \<^verbatim>\<open>id_short\<close>.\<close>

definition set_id_short :: "heap \<Rightarrow> ref \<Rightarrow> string \<Rightarrow> error option \<times> heap" where
  "set_id_short h x new =
     (if new = id_short (h x) then (None, h)
      else if new = [] then (Some (AASConstraintViolation 100), h)
      else if \<not> list_all word_char new then (Some (AASConstraintViolation 2), h)
      else if \<not> isalpha (hd new) then (Some (AASConstraintViolation 2), h)
      else
        (case parent (h x) of
           None \<Rightarrow> (None, write_id_short h x new)
         | Some p \<Rightarrow>
             if list_ex (\<lambda>s. contains_id s ''id_short'' (PyStr new)) (namespace_element_sets (h p))
             then (Some (IdShortPresent new), h)
             else
               (case detach h p x [0 ..< length (namespace_element_sets (h p))] of
                  (Some e, h1, set_add_list) \<Rightarrow> (Some e, h1)
                | (None, h1, set_add_list) \<Rightarrow>
                    (case reattach (write_id_short h1 x new) p x set_add_list of
                       (Some e, h2) \<Rightarrow> (Some e, h2)
                     | (None, h2) \<Rightarrow> (None, write_id_short h2 x new)))))"

text \<open>What the setter accepts: not empty, only \<^verbatim>\<open>[a-zA-Z0-9_]\<close>, a letter first.\<close>

definition well_formed_id_short :: "string \<Rightarrow> bool" where
  "well_formed_id_short s = (s \<noteq> [] \<and> list_all word_char s \<and> isalpha (hd s))"

section \<open>Synchronisation with backends\<close>

text \<open>
  \<^verbatim>\<open>backends.get_backend\<close>: the scheme is what the regular expression
  \<^verbatim>\<open>^([a-zA-Z][a-zA-Z+\-\.]*):\<close> captures, a letter followed by the longest run of scheme
  characters, which a colon must follow. The registry \<^verbatim>\<open>_backends_map\<close> is a map from
  schemes to backends.
\<close>

definition scheme_char :: "char \<Rightarrow> bool" where
  "scheme_char c = (c \<in> set (ascii_letters @ ''+-.''))"

definition uri_scheme :: "string \<Rightarrow> string option" where
  "uri_scheme url =
     (case url of
        [] \<Rightarrow> None
      | c # cs \<Rightarrow>
          if \<not> isalpha c then None
          else
            (case dropWhile scheme_char cs of
               [] \<Rightarrow> None
             | d # _ \<Rightarrow> if d = CHR '':'' then Some (c # takeWhile scheme_char cs) else None))"

definition get_backend :: "(string \<Rightarrow> 'b option) \<Rightarrow> string \<Rightarrow> error + 'b" where
  "get_backend backends_map url =
     (case uri_scheme url of
        None \<Rightarrow> Inl (NoUriScheme url)
      | Some scheme \<Rightarrow>
          (case backends_map scheme of None \<Rightarrow> Inl (NoBackend scheme) | Some b \<Rightarrow> Inr b))"

text \<open>
  A backend is an external collaborator: a call of \<^verbatim>\<open>commit_object\<close> or \<^verbatim>\<open>update_object\<close>
  is recorded as an event (backend, object, store object, relative path), and the run of a
  method is the list of its events together with the exception that ended it, if any.
\<close>

datatype 'b event =
    Commit 'b ref ref "string list"
  | Update 'b ref ref "string list"

type_synonym 'b run = "('b event list \<times> error option) option"

text \<open>Runs one after the other; an exception, or a count used up, ends the sequence.\<close>

fun run_each :: "(ref \<Rightarrow> 'b run) \<Rightarrow> ref list \<Rightarrow> 'b run" where
  "run_each f [] = Some ([], None)"
| "run_each f (x # xs) =
     (case f x of
        None \<Rightarrow> None
      | Some (evs, Some e) \<Rightarrow> Some (evs, Some e)
      | Some (evs, None) \<Rightarrow>
          (case run_each f xs of
             None \<Rightarrow> None
           | Some (evs', e) \<Rightarrow> Some (evs @ evs', e)))"

text \<open>
  The children that \<^verbatim>\<open>update\<close> and \<^verbatim>\<open>_direct_source_commit\<close> visit: the members of every
  set of the namespace that tracks \<^verbatim>\<open>id_short\<close>, in the order of the sets and of their
  iteration.
\<close>

definition id_short_children :: "obj \<Rightarrow> ref list" where
  "id_short_children x =
     (if isinstance x ''UniqueIdShortNamespace''
      then concat (map (\<lambda>namespace_set.
             if ''id_short'' \<in> set (get_attribute_name_list namespace_set)
             then (case iter namespace_set of Inr xs \<Rightarrow> xs | Inl e \<Rightarrow> [])
             else []) (namespace_element_sets x))
      else [])"

text \<open>The call to the backend of the own source, with an empty relative path.\<close>

definition own_source ::
  "(string \<Rightarrow> 'b option) \<Rightarrow> ('b \<Rightarrow> ref \<Rightarrow> ref \<Rightarrow> string list \<Rightarrow> 'b event) \<Rightarrow> heap \<Rightarrow> ref
     \<Rightarrow> 'b event list \<times> error option" where
  "own_source backends_map call h x =
     (if source (h x) \<noteq> []
      then (case get_backend backends_map (source (h x)) of
              Inl e \<Rightarrow> ([], Some e)
            | Inr b \<Rightarrow> ([call b x x []], None))
      else ([], None))"

text \<open>
  \<^verbatim>\<open>Referable._direct_source_commit\<close>. The recursion follows the containment of the
  heap, which nothing bounds, so the model counts the depth.
\<close>

fun direct_source_commit :: "nat \<Rightarrow> (string \<Rightarrow> 'b option) \<Rightarrow> heap \<Rightarrow> ref \<Rightarrow> 'b run" where
  "direct_source_commit 0 backends_map h x = None"
| "direct_source_commit (Suc n) backends_map h x =
     (case own_source backends_map Commit h x of
        (evs, Some e) \<Rightarrow> Some (evs, Some e)
      | (evs, None) \<Rightarrow>
          (case run_each (direct_source_commit n backends_map h) (id_short_children (h x)) of
             None \<Rightarrow> None
           | Some (evs', e) \<Rightarrow> Some (evs @ evs', e)))"

text \<open>
  The loop of \<^verbatim>\<open>Referable.commit\<close> over the ancestors; \<open>relative_path\<close> grows at its front.
\<close>

fun commit_ancestors ::
  "nat \<Rightarrow> (string \<Rightarrow> 'b option) \<Rightarrow> heap \<Rightarrow> ref \<Rightarrow> ref option \<Rightarrow> string list \<Rightarrow> 'b run" where
  "commit_ancestors 0 backends_map h x current_ancestor relative_path = None"
| "commit_ancestors (Suc n) backends_map h x None relative_path = Some ([], None)"
| "commit_ancestors (Suc n) backends_map h x (Some a) relative_path =
     (if \<not> isinstance (h a) ''Referable'' then Some ([], Some AssertionError)
      else if source (h a) \<noteq> []
      then (case get_backend backends_map (source (h a)) of
              Inl e \<Rightarrow> Some ([], Some e)
            | Inr b \<Rightarrow>
                (case commit_ancestors n backends_map h x (parent (h a)) (id_short (h a) # relative_path) of
                   None \<Rightarrow> None
                 | Some (evs, e) \<Rightarrow> Some (Commit b x a relative_path # evs, e)))
      else commit_ancestors n backends_map h x (parent (h a)) (id_short (h a) # relative_path))"

text \<open>\<^verbatim>\<open>Referable.commit\<close>\<close>

definition commit :: "nat \<Rightarrow> (string \<Rightarrow> 'b option) \<Rightarrow> heap \<Rightarrow> ref \<Rightarrow> 'b run" where
  "commit fuel backends_map h x =
     (case commit_ancestors fuel backends_map h x (parent (h x)) [id_short (h x)] of
        None \<Rightarrow> None
      | Some (evs, Some e) \<Rightarrow> Some (evs, Some e)
      | Some (evs, None) \<Rightarrow>
          (case direct_source_commit fuel backends_map h x of
             None \<Rightarrow> None
           | Some (evs', e) \<Rightarrow> Some (evs @ evs', e)))"

text \<open>
  \<^verbatim>\<open>Referable.find_source\<close>: the loop climbs from the element; the result is the pair the
  source returns (\<open>None\<close> for \<^verbatim>\<open>(None, None)\<close>), an AssertionError, or nothing when the
  count is used up.
\<close>

fun find_source_loop ::
  "nat \<Rightarrow> heap \<Rightarrow> ref \<Rightarrow> string list \<Rightarrow> (error + (ref \<times> string list) option) option" where
  "find_source_loop 0 h referable relative_path = None"
| "find_source_loop (Suc n) h referable relative_path =
     (if source (h referable) \<noteq> [] then Some (Inr (Some (referable, rev relative_path)))
      else
        (case parent (h referable) of
           None \<Rightarrow> Some (Inr None)
         | Some p \<Rightarrow>
             if \<not> isinstance (h p) ''Referable'' then Some (Inl AssertionError)
             else find_source_loop n h p (relative_path @ [id_short (h p)])))"

definition find_source :: "nat \<Rightarrow> heap \<Rightarrow> ref \<Rightarrow> (error + (ref \<times> string list) option) option" where
  "find_source fuel h x = find_source_loop fuel h x [id_short (h x)]"

text \<open>The first part of \<^verbatim>\<open>Referable.update\<close>: the update of the element itself.\<close>

definition update_self ::
  "nat \<Rightarrow> (string \<Rightarrow> 'b option) \<Rightarrow> heap \<Rightarrow> ref \<Rightarrow> bool \<Rightarrow> 'b run" where
  "update_self fuel backends_map h x indirect_source =
     (if \<not> indirect_source then Some (own_source backends_map Update h x)
      else if source (h x) \<noteq> [] then Some (own_source backends_map Update h x)
      else
        (case find_source fuel h x of
           None \<Rightarrow> None
         | Some (Inl e) \<Rightarrow> Some ([], Some e)
         | Some (Inr None) \<Rightarrow> Some ([], None)
         | Some (Inr (Some (store_object, relative_path))) \<Rightarrow>
             (case get_backend backends_map (source (h store_object)) of
                Inl e \<Rightarrow> Some ([], Some e)
              | Inr b \<Rightarrow> Some ([Update b x store_object relative_path], None))))"

text \<open>
  \<^verbatim>\<open>Referable.update\<close>; \<^verbatim>\<open>max_age\<close> is not used by the source. The children are updated
  with \<^verbatim>\<open>recursive=True\<close> and \<^verbatim>\<open>_indirect_source=False\<close>.
\<close>

fun update :: "nat \<Rightarrow> (string \<Rightarrow> 'b option) \<Rightarrow> heap \<Rightarrow> ref \<Rightarrow> bool \<Rightarrow> bool \<Rightarrow> 'b run" where
  "update 0 backends_map h x recursive indirect_source = None"
| "update (Suc n) backends_map h x recursive indirect_source =
     (case update_self (Suc n) backends_map h x indirect_source of
        None \<Rightarrow> None
      | Some (evs, Some e) \<Rightarrow> Some (evs, Some e)
      | Some (evs, None) \<Rightarrow>
          if recursive
          then (case run_each (\<lambda>c. update n backends_map h c True False) (id_short_children (h x)) of
                  None \<Rightarrow> None
                | Some (evs', e) \<Rightarrow> Some (evs @ evs', e))
          else Some (evs, None))"

section \<open>References\<close>

text \<open>\<^verbatim>\<open>Namespace._get_object\<close>: the first set whose lookup does not raise KeyError answers.\<close>

fun get_object :: "NamespaceSet list \<Rightarrow> string \<Rightarrow> string \<Rightarrow> error + ref" where
  "get_object [] attribute_name attribute = Inl (NotInNamespace attribute)"
| "get_object (ns_set # rest) attribute_name attribute =
     (case get_object_by_attribute ns_set attribute_name attribute of
        Inr x \<Rightarrow> Inr x
      | Inl e \<Rightarrow> if class_of e = KeyError then get_object rest attribute_name attribute else Inl e)"

text \<open>\<^verbatim>\<open>UniqueIdShortNamespace.get_referable\<close>\<close>

definition get_referable :: "heap \<Rightarrow> ref \<Rightarrow> string \<Rightarrow> error + ref" where
  "get_referable h ns name = get_object (namespace_element_sets (h ns)) ''id_short'' name"

text \<open>
  \<^verbatim>\<open>AASReference\<close>: the keys and the target type, a class name. The table
  \<^verbatim>\<open>KEY_ELEMENTS_CLASSES\<close> is defined outside the sources at hand; the functions that read
  it take it as a parameter, an association list from class names to \<^verbatim>\<open>KeyElements\<close>.
\<close>

datatype AASReference = AASReference (reference_key: "Key list") (reference_type: string)

type_synonym key_elements_classes = "(string \<times> KeyElements) list"

text \<open>The first class of the mro that the table knows.\<close>

definition first_known_class :: "key_elements_classes \<Rightarrow> obj \<Rightarrow> string option" where
  "first_known_class table x = List.find (\<lambda>t. map_of table t \<noteq> None) (mro x)"

text \<open>\<^verbatim>\<open>Key.from_referable\<close>\<close>

definition Key_from_referable :: "key_elements_classes \<Rightarrow> obj \<Rightarrow> error + Key" where
  "Key_from_referable table x =
     (let ktype = (case first_known_class table x of
                     Some t \<Rightarrow> the (map_of table t)
                   | None \<Rightarrow> PROPERTY)
      in if isinstance x ''Identifiable''
         then Key_init ktype (identifier_id (identification x))
                (KeyType_of (identifier_id_type (identification x)))
         else Key_init ktype (id_short x) IDSHORT)"

text \<open>
  The loop of \<^verbatim>\<open>AASReference.from_referable\<close>, which is \<^verbatim>\<open>while True\<close> in the source: it
  climbs the parent links and has no bound of its own, so the model counts steps and
  \<open>None\<close> means that the count was used up.
\<close>

fun climb :: "nat \<Rightarrow> key_elements_classes \<Rightarrow> heap \<Rightarrow> ref \<Rightarrow> Key list \<Rightarrow> (error + Key list) option" where
  "climb 0 table h r keys = None"
| "climb (Suc n) table h r keys =
     (case Key_from_referable table (h r) of
        Inl e \<Rightarrow> Some (Inl e)
      | Inr k \<Rightarrow>
          if isinstance (h r) ''Identifiable'' then Some (Inr (rev (keys @ [k])))
          else
            (case parent (h r) of
               None \<Rightarrow> Some (Inl NotEmbedded)
             | Some p \<Rightarrow>
                 if \<not> isinstance (h p) ''Referable'' then Some (Inl NotEmbedded)
                 else climb n table h p (keys @ [k])))"

definition from_referable :: "nat \<Rightarrow> key_elements_classes \<Rightarrow> heap \<Rightarrow> ref \<Rightarrow> (error + AASReference) option" where
  "from_referable fuel table h r =
     (let ref_type = (case first_known_class table (h r) of Some t \<Rightarrow> t | None \<Rightarrow> ''Referable'')
      in map_option (map_sum id (\<lambda>keys. AASReference keys ref_type)) (climb fuel table h r []))"

text \<open>
  The index of the last key with an identifier, searched from the end as the source does;
  an \<^verbatim>\<open>Identifier\<close> object is always true.
\<close>

fun last_identifier_index :: "Key list \<Rightarrow> nat option" where
  "last_identifier_index [] = None"
| "last_identifier_index (k # ks) =
     (case last_identifier_index ks of
        Some i \<Rightarrow> Some (Suc i)
      | None \<Rightarrow> if get_identifier k \<noteq> None then Some 0 else None)"

text \<open>
  The walk of \<^verbatim>\<open>resolve\<close> along the remaining keys. \<^verbatim>\<open>resolved_keys\<close> is passed along as
  the source has it: nothing is appended to it inside the loop.
\<close>

fun follow :: "heap \<Rightarrow> ref \<Rightarrow> string list \<Rightarrow> Key list \<Rightarrow> error + ref" where
  "follow h item resolved_keys [] = Inr item"
| "follow h item resolved_keys (k # ks) =
     (if \<not> isinstance (h item) ''UniqueIdShortNamespace'' then Inl (NotANamespace resolved_keys)
      else
        (case get_referable h item (key_value k) of
           Inl e \<Rightarrow> Inl (IdShortUnresolved (key_value k) resolved_keys)
         | Inr item' \<Rightarrow> follow h item' resolved_keys ks))"

text \<open>
  \<^verbatim>\<open>AASReference.resolve\<close>. The provider is the map that \<^verbatim>\<open>get_identifiable\<close> implements;
  \<open>None\<close> is its KeyError.
\<close>

definition resolve :: "heap \<Rightarrow> (Identifier \<Rightarrow> ref option) \<Rightarrow> AASReference \<Rightarrow> error + ref" where
  "resolve h provider r =
     (if length (reference_key r) = 0 then Inl IndexError
      else
        (case last_identifier_index (reference_key r) of
           None \<Rightarrow> Inl NotImplementedError
         | Some i \<Rightarrow>
             (case get_identifier (reference_key r ! i) of
                None \<Rightarrow> Inl NotImplementedError
              | Some identifier \<Rightarrow>
                  (case provider identifier of
                     None \<Rightarrow> Inl (GlobalKeyUnresolved identifier)
                   | Some root \<Rightarrow>
                       (case follow h root [str_Identifier identifier] (drop (Suc i) (reference_key r)) of
                          Inl e \<Rightarrow> Inl e
                        | Inr item \<Rightarrow>
                            if \<not> isinstance (h item) (reference_type r) then Inl (UnexpectedTypeError item)
                            else Inr item)))))"

subsection \<open>Elements reachable through indexed containers\<close>

text \<open>A Key can be built for the object: \<^verbatim>\<open>Key.from_referable\<close> does not raise.\<close>

definition has_key :: "key_elements_classes \<Rightarrow> obj \<Rightarrow> bool" where
  "has_key table x = (case Key_from_referable table x of Inl e \<Rightarrow> False | Inr k \<Rightarrow> True)"

text \<open>
  \<open>c\<close> is an indexed child of \<open>p\<close>: \<open>p\<close> is its parent, a \<^verbatim>\<open>Referable\<close> and a
  \<^verbatim>\<open>UniqueIdShortNamespace\<close> whose short-name lookup of the id_short of \<open>c\<close> yields \<open>c\<close>
  itself; \<open>c\<close> is a \<^verbatim>\<open>Referable\<close> and no \<^verbatim>\<open>Identifiable\<close> (identifiers are carried by
  roots only), and a Key can be built for it.
\<close>

definition indexed_child :: "key_elements_classes \<Rightarrow> heap \<Rightarrow> ref \<Rightarrow> ref \<Rightarrow> bool" where
  "indexed_child table h p c =
     (parent (h c) = Some p
      \<and> isinstance (h p) ''Referable'' \<and> isinstance (h p) ''UniqueIdShortNamespace''
      \<and> isinstance (h c) ''Referable'' \<and> \<not> isinstance (h c) ''Identifiable''
      \<and> has_key table (h c)
      \<and> get_referable h p (id_short (h c)) = Inr c)"

text \<open>A chain of indexed children from \<open>p\<close> downwards.\<close>

fun descends :: "key_elements_classes \<Rightarrow> heap \<Rightarrow> ref \<Rightarrow> ref list \<Rightarrow> bool" where
  "descends table h p [] = True"
| "descends table h p (c # cs) = (indexed_child table h p c \<and> descends table h c cs)"

text \<open>
  A root: an \<^verbatim>\<open>Identifiable\<close> (hence a \<^verbatim>\<open>Referable\<close>) that the provider returns for its own
  identifier.
\<close>

definition registered_root :: "key_elements_classes \<Rightarrow> heap \<Rightarrow> (Identifier \<Rightarrow> ref option) \<Rightarrow> ref \<Rightarrow> bool" where
  "registered_root table h provider r =
     (isinstance (h r) ''Identifiable'' \<and> isinstance (h r) ''Referable''
      \<and> has_key table (h r) \<and> provider (identification (h r)) = Some r)"

text \<open>The Key that \<^verbatim>\<open>Key.from_referable\<close> builds for an object that has one.\<close>

definition key_of :: "key_elements_classes \<Rightarrow> obj \<Rightarrow> Key" where
  "key_of table x = (case Key_from_referable table x of Inr k \<Rightarrow> k | Inl e \<Rightarrow> Key PROPERTY [] IDSHORT)"

subsection \<open>Ancestors and descendants\<close>

text \<open>
  \<open>ancestors\<close> lists the ancestors of \<open>x\<close>, the parent first, up to one without a parent;
  each is a \<^verbatim>\<open>Referable\<close>.
\<close>

fun ancestor_chain :: "heap \<Rightarrow> ref \<Rightarrow> ref list \<Rightarrow> bool" where
  "ancestor_chain h x [] = (parent (h x) = None)"
| "ancestor_chain h x (a # ancestors) =
     (parent (h x) = Some a \<and> isinstance (h a) ''Referable'' \<and> ancestor_chain h a ancestors)"

text \<open>The source of the object, when it has one, names a registered backend.\<close>

definition resolvable :: "(string \<Rightarrow> 'b option) \<Rightarrow> heap \<Rightarrow> ref \<Rightarrow> bool" where
  "resolvable backends_map h y =
     (source (h y) = [] \<or> (case get_backend backends_map (source (h y)) of Inl e \<Rightarrow> False | Inr b \<Rightarrow> True))"

definition backend_of :: "(string \<Rightarrow> 'b option) \<Rightarrow> heap \<Rightarrow> ref \<Rightarrow> 'b" where
  "backend_of backends_map h y = projr (get_backend backends_map (source (h y)))"

text \<open>
  The calls that a commit of \<open>x\<close> owes to its ancestors, as a closed form: the \<open>i\<close>-th
  ancestor with a source is called with the short-names of the ancestors below it, from
  its child on the chain downwards, and the short-name of \<open>x\<close> last.
\<close>

definition ancestor_commits :: "(string \<Rightarrow> 'b option) \<Rightarrow> heap \<Rightarrow> ref \<Rightarrow> ref list \<Rightarrow> 'b event list" where
  "ancestor_commits backends_map h x ancestors =
     concat (map (\<lambda>i.
         if source (h (ancestors ! i)) \<noteq> []
         then [Commit (backend_of backends_map h (ancestors ! i)) x (ancestors ! i)
                 (map (\<lambda>a. id_short (h a)) (rev (take i ancestors)) @ [id_short (h x)])]
         else [])
       [0 ..< length ancestors])"

text \<open>The call of an object to the backend of its own source: none without a source.\<close>

definition own_call ::
  "(string \<Rightarrow> 'b option) \<Rightarrow> ('b \<Rightarrow> ref \<Rightarrow> ref \<Rightarrow> string list \<Rightarrow> 'b event) \<Rightarrow> heap \<Rightarrow> ref \<Rightarrow> 'b event list" where
  "own_call backends_map call h y =
     (if source (h y) \<noteq> [] then [call (backend_of backends_map h y) y y []] else [])"

text \<open>
  The element and its descendants through id_short sets, parents before children, down to
  a depth; \<open>bounded_depth n\<close> says that the descendants end within \<open>n\<close> levels.
\<close>

fun preorder :: "nat \<Rightarrow> heap \<Rightarrow> ref \<Rightarrow> ref list" where
  "preorder 0 h x = []"
| "preorder (Suc n) h x = x # concat (map (preorder n h) (id_short_children (h x)))"

fun bounded_depth :: "nat \<Rightarrow> heap \<Rightarrow> ref \<Rightarrow> bool" where
  "bounded_depth 0 h x = False"
| "bounded_depth (Suc n) h x = list_all (bounded_depth n h) (id_short_children (h x))"

section \<open>Sets that index id_short only\<close>

text \<open>The object without its parent link and its sets: what add and remove never touch.\<close>

definition data_of :: "obj \<Rightarrow> obj" where
  "data_of x = x\<lparr>parent := None, namespace_element_sets := []\<rparr>"


text \<open>The folded id_short of an object: its key in an id_short index.\<close>

definition key_in :: "bool \<Rightarrow> obj \<Rightarrow> pyval" where
  "key_in case_sensitive x = fold_case case_sensitive (PyStr (id_short x))"



text \<open>
  One pass of the first loop for an object of \<open>other\<close> that is a Referable holding no set:
  the member of \<open>self\<close> under the same key, if any, takes the plain variables of the object.
\<close>

definition merge_one :: "index_dict \<Rightarrow> bool \<Rightarrow> ref \<Rightarrow> heap \<Rightarrow> heap" where
  "merge_one bs cs other_object g =
     (case map_of bs (key_in cs (g other_object)) of
        None \<Rightarrow> g
      | Some a \<Rightarrow> g(a := merge_plain (g a) (g other_object) True))"

section \<open>Example heaps\<close>

text \<open>An object with nothing set, and a \<^verbatim>\<open>Referable\<close> with an id_short as its constructor leaves it.\<close>

definition blank :: obj where
  "blank = \<lparr>mro = [], identification = Identifier ''None'' IRDI,
     id_short = [], qualifier_type = [], extension_name = [], semantic_id = PyNone,
     parent = None, source = [], plain_vars = [], namespace_element_sets = []\<rparr>"

definition referable :: "string \<Rightarrow> obj" where
  "referable n = blank\<lparr>mro := [''Referable''], id_short := n\<rparr>"

text \<open>A \<^verbatim>\<open>Referable\<close> that is a \<^verbatim>\<open>UniqueIdShortNamespace\<close> as well.\<close>

definition namespace :: "string \<Rightarrow> obj" where
  "namespace n = blank\<lparr>mro := [''Referable'', ''UniqueIdShortNamespace''], id_short := n\<rparr>"

text \<open>
  A namespace (address 0) with one case-insensitive id_short set that holds \<^verbatim>\<open>Abc\<close>
  (address 1); \<^verbatim>\<open>aBC\<close>, \<^verbatim>\<open>Other\<close> (owned elsewhere) and \<^verbatim>\<open>New\<close> are outside.
\<close>

definition h_add :: heap where
  "h_add = (\<lambda>_. blank)
     (0 := (namespace ''Owner'')\<lparr>namespace_element_sets :=
              [\<lparr>held_as = ''value'', backend = [(''id_short'', ([(PyStr ''ABC'', 1)], False))],
                order = None\<rparr>]\<rparr>,
      1 := (referable ''Abc'')\<lparr>parent := Some 0\<rparr>,
      2 := referable ''aBC'',
      3 := (referable ''Other'')\<lparr>parent := Some 9\<rparr>,
      4 := referable ''New'')"

text \<open>
  An empty namespace (address 0) and four elements to construct a set from; the third,
  \<^verbatim>\<open>aBC\<close>, differs from the first, \<^verbatim>\<open>Abc\<close>, by case only.
\<close>

definition h_bulk :: heap where
  "h_bulk = (\<lambda>_. blank)
     (0 := namespace ''Owner'',
      1 := referable ''Abc'',
      2 := referable ''Xyz'',
      3 := referable ''aBC'',
      4 := referable ''Last'')"

text \<open>
  A namespace (address 0) whose case-insensitive id_short set holds \<^verbatim>\<open>Abc\<close> (address 1)
  and \<^verbatim>\<open>Xyz\<close> (address 2).
\<close>

definition h_ren :: heap where
  "h_ren = (\<lambda>_. blank)
     (0 := (namespace ''Owner'')\<lparr>namespace_element_sets :=
              [\<lparr>held_as = ''value'',
                backend = [(''id_short'', ([(PyStr ''ABC'', 1), (PyStr ''XYZ'', 2)], False))],
                order = None\<rparr>]\<rparr>,
      1 := (referable ''Abc'')\<lparr>parent := Some 0\<rparr>,
      2 := (referable ''Xyz'')\<lparr>parent := Some 0\<rparr>)"

text \<open>
  A submodel (address 0, identified by \<^verbatim>\<open>urn:root\<close>) that holds the collection \<^verbatim>\<open>Coll\<close>
  (address 1), which holds the property \<^verbatim>\<open>Prop\<close> (address 2); the provider knows the
  submodel, and the table names the three classes.
\<close>

definition id_set :: "index_dict \<Rightarrow> NamespaceSet" where
  "id_set b = \<lparr>held_as = ''value'', backend = [(''id_short'', (b, False))], order = None\<rparr>"

definition h_tree :: heap where
  "h_tree = (\<lambda>_. blank)
     (0 := blank\<lparr>mro := [''Submodel'', ''Identifiable'', ''Referable'', ''UniqueIdShortNamespace''],
               identification := Identifier ''urn:root'' IRI, id_short := ''Root'',
               namespace_element_sets := [id_set [(PyStr ''COLL'', 1)]]\<rparr>,
      1 := blank\<lparr>mro := [''SubmodelElementCollection'', ''Referable'', ''UniqueIdShortNamespace''],
               id_short := ''Coll'', parent := Some 0,
               namespace_element_sets := [id_set [(PyStr ''PROP'', 2)]]\<rparr>,
      2 := blank\<lparr>mro := [''Property'', ''Referable''], id_short := ''Prop'', parent := Some 1\<rparr>)"

definition provider_tree :: "Identifier \<Rightarrow> ref option" where
  "provider_tree i = (if i = Identifier ''urn:root'' IRI then Some 0 else None)"

definition table_tree :: key_elements_classes where
  "table_tree = [(''Submodel'', SUBMODEL),
     (''SubmodelElementCollection'', SUBMODEL_ELEMENT_COLLECTION), (''Property'', PROPERTY)]"

text \<open>
  A grandparent \<^verbatim>\<open>GP\<close> (address 0) and a parent \<^verbatim>\<open>P\<close> (address 1), both with a source; the
  element \<^verbatim>\<open>E\<close> (address 2) without one; its children \<^verbatim>\<open>C1\<close> (address 3, with a source)
  and \<^verbatim>\<open>C2\<close> (address 4, without). One backend, number 0, is registered for the scheme
  \<^verbatim>\<open>mock\<close>.
\<close>

definition h_sync :: heap where
  "h_sync = (\<lambda>_. blank)
     (0 := (namespace ''GP'')\<lparr>source := ''mock:gp'',
              namespace_element_sets := [id_set [(PyStr ''P'', 1)]]\<rparr>,
      1 := (namespace ''P'')\<lparr>source := ''mock:p'', parent := Some 0,
              namespace_element_sets := [id_set [(PyStr ''E'', 2)]]\<rparr>,
      2 := (namespace ''E'')\<lparr>parent := Some 1,
              namespace_element_sets := [id_set [(PyStr ''C1'', 3), (PyStr ''C2'', 4)]]\<rparr>,
      3 := (referable ''C1'')\<lparr>source := ''mock:c1'', parent := Some 2\<rparr>,
      4 := (referable ''C2'')\<lparr>parent := Some 2\<rparr>)"

definition mock_backends :: "string \<Rightarrow> nat option" where
  "mock_backends scheme = (if scheme = ''mock'' then Some 0 else None)"

text \<open>
  A namespace (address 0) with an ordered, case-insensitive id_short set that holds \<^verbatim>\<open>A\<close>
  (address 1) and \<^verbatim>\<open>B\<close> (address 2) in this order; \<^verbatim>\<open>C\<close> (address 3) and \<^verbatim>\<open>D\<close>
  (address 4) are outside.
\<close>

definition h_ord :: heap where
  "h_ord = (\<lambda>_. blank)
     (0 := (namespace ''Owner'')\<lparr>namespace_element_sets :=
              [\<lparr>held_as = ''value'',
                backend = [(''id_short'', ([(PyStr ''A'', 1), (PyStr ''B'', 2)], False))],
                order = Some [1, 2]\<rparr>]\<rparr>,
      1 := (referable ''A'')\<lparr>parent := Some 0\<rparr>,
      2 := (referable ''B'')\<lparr>parent := Some 0\<rparr>,
      3 := referable ''C'',
      4 := referable ''D'')"


section \<open>Heap and container lemmas\<close>

lemma the_set_put_set_same:
  "valid_set h s \<Longrightarrow> the_set (put_set h s n) s = n"
  by (simp add: the_set_def put_set_def valid_set_def)

lemma valid_set_put_set: "valid_set (put_set h s n) t = valid_set h t"
  by (simp add: valid_set_def put_set_def)

lemma valid_set_set_parent: "valid_set (set_parent h x p) t = valid_set h t"
  by (simp add: valid_set_def set_parent_def)

lemma valid_set_order_append: "valid_set (order_append h s v) t = valid_set h t"
  by (simp add: order_append_def Let_def valid_set_put_set)

lemma the_set_set_parent: "the_set (set_parent h x p) s = the_set h s"
  by (simp add: the_set_def set_parent_def)

lemma sets_set_parent:
  "namespace_element_sets (set_parent h x p y) = namespace_element_sets (h y)"
  by (simp add: set_parent_def)

lemma length_sets_put_set:
  "length (namespace_element_sets (put_set h s n y)) = length (namespace_element_sets (h y))"
  by (simp add: put_set_def)

lemma getattr_put_set: "getattr (put_set h s n y) a = getattr (h y) a"
  by (simp add: put_set_def getattr_def isinstance_def)

lemma getattr_set_parent: "getattr (set_parent h x p y) a = getattr (h y) a"
  by (simp add: set_parent_def getattr_def isinstance_def)

lemma get_attribute_put_set: "get_attribute (put_set h s n y) a c = get_attribute (h y) a c"
  by (simp add: get_attribute_def getattr_put_set)


lemma parent_put_set: "parent (put_set h s n y) = parent (h y)"
  by (simp add: put_set_def)

lemma parent_set_parent: "parent (set_parent h x p y) = (if y = x then p else parent (h y))"
  by (simp add: set_parent_def)

lemma check_backend_step:
  "check_backend x t (e # bk) =
     (if entry_collides x e then Some (AttributePresent (fst e) (the (getattr x (fst e))) t)
      else check_backend x t bk)"
  by (cases e) (auto simp: entry_collides_def split: option.splits)

lemma check_backend_None:
  "check_backend x t bk = None \<longleftrightarrow> (\<forall>e \<in> set bk. \<not> entry_collides x e)"
  by (induction bk) (simp_all add: check_backend_step del: check_backend.simps(2))

lemma check_backend_Some:
  "check_backend x t bk = Some err \<Longrightarrow>
     \<exists>e \<in> set bk. entry_collides x e \<and> err = AttributePresent (fst e) (the (getattr x (fst e))) t"
  by (induction bk) (auto simp: check_backend_step simp del: check_backend.simps(2) split: if_splits)

lemma check_sets_None:
  "check_sets x i j sets = None \<longleftrightarrow> \<not> collides x sets"
  by (induction sets arbitrary: j) (auto simp: collides_def check_backend_None split: option.splits dest: check_backend_Some)

lemma check_sets_Some:
  "check_sets x i j sets = Some err \<Longrightarrow>
     \<exists>s \<in> set sets. \<exists>e \<in> set (backend s). \<exists>t. entry_collides x e
        \<and> err = AttributePresent (fst e) (the (getattr x (fst e))) t"
proof (induction sets arbitrary: j)
  case Nil
  then show ?case by simp
next
  case (Cons s ss)
  show ?case
  proof (cases "check_backend x (j = i) (backend s)")
    case None
    with Cons.prems have "check_sets x i (Suc j) ss = Some err" by simp
    from Cons.IH [OF this] show ?thesis by auto
  next
    case (Some e')
    with Cons.prems have "e' = err" by simp
    with Some check_backend_Some [of x "j = i" "backend s" err] show ?thesis by auto
  qed
qed

lemma index_item_keys: "map fst (snd (index_item x r bk)) = map fst bk"
  by (induction bk) (auto split: sum.splits prod.splits)

lemma index_item_ok:
  "index_item x r bk = (None, bk') \<Longrightarrow>
     \<forall>(a, (b, c)) \<in> set bk'. \<exists>k. get_attribute x a c = Inr k \<and> map_of b k = Some r"
proof (induction bk arbitrary: bk')
  case Nil
  then show ?case by simp
next
  case (Cons p bk)
  obtain a b c where p: "p = (a, (b, c))" by (cases p) auto
  from Cons.prems p obtain k rest' where k: "get_attribute x a c = Inr k"
    and rest: "index_item x r bk = (None, rest')"
    and bk': "bk' = (a, (AList.update k r b, c)) # rest'"
    by (auto split: sum.splits prod.splits)
  from Cons.IH [OF rest] k bk' show ?case by (auto simp: update_conv')
qed

lemma length_sets_set_parent:
  "length (namespace_element_sets (set_parent h x p y)) = length (namespace_element_sets (h y))"
  by (simp add: set_parent_def)

lemma get_attribute_order_append: "get_attribute (order_append h s v y) a c = get_attribute (h y) a c"
  by (simp add: order_append_def Let_def get_attribute_put_set)

lemma parent_order_append: "parent (order_append h s v y) = parent (h y)"
  by (simp add: order_append_def Let_def parent_put_set)

lemma backend_order_append:
  "valid_set h s \<Longrightarrow> backend (the_set (order_append h s v) s) = backend (the_set h s)"
  by (simp add: order_append_def Let_def the_set_put_set_same)

lemma NamespaceSet_add_success:
  assumes valid: "valid_set h self"
    and ok: "NamespaceSet_add h self item = (None, h')"
  shows "parent (h' item) = Some (fst self)"
    and "\<forall>(a, (b, c)) \<in> set (backend (the_set h' self)).
           \<exists>k. get_attribute (h' item) a c = Inr k \<and> map_of b k = Some item"
    and "valid_set h' self"
proof -
  define h1 where "h1 = set_parent h item (Some (fst self))"
  define s where "s = the_set h1 self"
  obtain e bk where ix: "index_item (h1 item) item (backend s) = (e, bk)"
    by (cases "index_item (h1 item) item (backend s)") auto
  from ok ix have e: "e = None" and h': "h' = put_set h1 self (s\<lparr>backend := bk\<rparr>)"
    by (auto simp: NamespaceSet_add_def Let_def h1_def s_def split: option.splits if_splits)
  have valid1: "valid_set h1 self"
    using valid by (simp add: h1_def valid_set_set_parent)
  show "parent (h' item) = Some (fst self)"
    by (simp add: h' parent_put_set h1_def parent_set_parent)
  have bk': "backend (the_set h' self) = bk"
    using valid1 by (simp add: h' the_set_put_set_same)
  have ga: "get_attribute (h' item) a c = get_attribute (h1 item) a c" for a c
    by (simp add: h' get_attribute_put_set)
  from index_item_ok [OF ix [unfolded e]] show
    "\<forall>(a, (b, c)) \<in> set (backend (the_set h' self)).
           \<exists>k. get_attribute (h' item) a c = Inr k \<and> map_of b k = Some item"
    by (simp add: bk' ga)
  show "valid_set h' self"
    using valid1 by (simp add: h' valid_set_put_set)
qed

lemma index_item_total:
  "\<forall>e \<in> set bk. getattr x (fst e) \<noteq> None \<Longrightarrow> fst (index_item x r bk) = None"
  by (induction bk) (auto simp: get_attribute_def split: sum.splits prod.splits option.splits)

lemma upper_simps: "upper [] = []" "upper (c # cs) = upper_char c # upper cs"
  by (simp_all add: upper_def)

lemma alist_update_fresh: "map_of b k = None \<Longrightarrow> AList.update k r b = b @ [(k, r)]"
  by (induction b) (auto split: if_splits)

lemma entries_values_Cons:
  "set (entries_values ((a, (b, c)) # bk)) = snd ` set b \<union> set (entries_values bk)"
  by (simp add: entries_values_def)

lemma entries_values_Nil: "entries_values [] = []"
  by (simp add: entries_values_def)

lemma index_item_values:
  "\<forall>e \<in> set bk. \<not> entry_collides x e \<Longrightarrow>
     set (entries_values bk) \<subseteq> set (entries_values (snd (index_item x r bk)))"
proof (induction bk)
  case Nil
  then show ?case by simp
next
  case (Cons p bk)
  obtain a b c where p: "p = (a, (b, c))" by (cases p) auto
  show ?case
  proof (cases "get_attribute x a c")
    case (Inl e)
    with p show ?thesis by simp
  next
    case (Inr k)
    then obtain v where v: "getattr x a = Some v" and k: "k = fold_case c v"
      by (auto simp: get_attribute_def split: option.splits)
    from Cons.prems p v k have "map_of b k = None"
      by (simp add: entry_collides_def)
    then have u: "AList.update k r b = b @ [(k, r)]" by (rule alist_update_fresh)
    from Cons.prems have "set (entries_values bk) \<subseteq> set (entries_values (snd (index_item x r bk)))"
      by (intro Cons.IH) simp
    with p Inr u show ?thesis
      by (auto simp: entries_values_Cons split: prod.splits)
  qed
qed

lemma index_item_member:
  assumes "index_item x r bk = (None, bk')" "bk \<noteq> []"
  shows "r \<in> set (entries_values bk')"
proof -
  from assms(2) index_item_keys [of x r bk] assms(1) have "bk' \<noteq> []" by auto
  then obtain a b c rest where bk': "bk' = (a, (b, c)) # rest" by (cases bk') auto
  with index_item_ok [OF assms(1)] obtain k where "map_of b k = Some r" by auto
  then have "(k, r) \<in> set b" by (rule map_of_SomeD)
  then have "r \<in> snd ` set b" by force
  with bk' show ?thesis by (simp add: entries_values_Cons)
qed

lemma the_set_in_sets:
  "valid_set h s \<Longrightarrow> the_set h s \<in> set (namespace_element_sets (h (fst s)))"
  by (simp add: the_set_def valid_set_def)

lemma entry_collides_set_parent:
  "entry_collides (set_parent h x p y) e = entry_collides (h y) e"
  by (simp add: entry_collides_def getattr_set_parent)

lemma order_put_set_backend:
  "valid_set h s \<Longrightarrow> order (the_set (put_set h s ((the_set h s)\<lparr>backend := bk\<rparr>)) s) = order (the_set h s)"
  by (simp add: the_set_put_set_same)

text \<open>What one call of the base-class add does to the set, whatever its outcome.\<close>

lemma NamespaceSet_add_effect:
  assumes valid: "valid_set h self"
    and r: "NamespaceSet_add h self v = (e, h')"
  shows "set (indexed_values (the_set h self)) \<subseteq> set (indexed_values (the_set h' self))
      \<and> map fst (backend (the_set h' self)) = map fst (backend (the_set h self))
      \<and> valid_set h' t = valid_set h t
      \<and> order (the_set h' self) = order (the_set h self)
      \<and> (e = None \<and> backend (the_set h self) \<noteq> [] \<longrightarrow> v \<in> set (indexed_values (the_set h' self)))"
proof -
  define h1 where "h1 = set_parent h v (Some (fst self))"
  define s where "s = the_set h1 self"
  have s: "s = the_set h self" by (simp add: s_def h1_def the_set_set_parent)
  have valid1: "valid_set h1 self"
    using valid by (simp add: h1_def valid_set_set_parent)
  have "(h' = h \<and> e \<noteq> None)
      \<or> (check_sets (h v) (snd self) 0 (namespace_element_sets (h (fst self))) = None
          \<and> h' = put_set h1 self (s\<lparr>backend := snd (index_item (h1 v) v (backend s))\<rparr>)
          \<and> e = fst (index_item (h1 v) v (backend s)))"
  proof (cases "check_sets (h v) (snd self) 0 (namespace_element_sets (h (fst self)))")
    case (Some err)
    with r show ?thesis by (auto simp: NamespaceSet_add_def)
  next
    case None
    show ?thesis
    proof (cases "parent (h v) \<noteq> None \<and> parent (h v) \<noteq> Some (fst self)")
      case True
      with None r show ?thesis by (auto simp: NamespaceSet_add_def)
    next
      case False
      with None r show ?thesis
        by (auto simp: NamespaceSet_add_def Let_def h1_def s_def split: prod.splits)
    qed
  qed
  then show ?thesis
  proof (elim disjE conjE)
    assume "h' = h" "e \<noteq> None"
    then show ?thesis by auto
  next
    assume indexed: "check_sets (h v) (snd self) 0 (namespace_element_sets (h (fst self))) = None"
        "h' = put_set h1 self (s\<lparr>backend := snd (index_item (h1 v) v (backend s))\<rparr>)"
        "e = fst (index_item (h1 v) v (backend s))"
    from indexed(1) have "\<not> collides (h v) (namespace_element_sets (h (fst self)))"
      by (simp add: check_sets_None)
    with the_set_in_sets [OF valid] have "\<forall>e \<in> set (backend (the_set h self)). \<not> entry_collides (h v) e"
      by (auto simp: collides_def)
    then have "\<forall>e \<in> set (backend s). \<not> entry_collides (h1 v) e"
      by (simp add: s h1_def entry_collides_set_parent)
    from index_item_values [OF this, of v]
    have sub: "set (entries_values (backend s)) \<subseteq> set (entries_values (snd (index_item (h1 v) v (backend s))))" .
    have mem: "v \<in> set (entries_values (snd (index_item (h1 v) v (backend s))))"
      if "e = None" "backend s \<noteq> []"
      using that indexed(3) index_item_member [of "h1 v" v "backend s" "snd (index_item (h1 v) v (backend s))"]
      by (metis prod.collapse)
    from valid1 sub mem show ?thesis
      by (simp add: indexed(2) the_set_put_set_same valid_set_put_set index_item_keys s [symmetric]
          h1_def valid_set_set_parent indexed_values_def)
  qed
qed


lemma the_set_order_append:
  "valid_set h s \<Longrightarrow>
     the_set (order_append h s v) s = (the_set h s)\<lparr>order := map_option (\<lambda>xs. xs @ [v]) (order (the_set h s))\<rparr>"
  by (simp add: order_append_def Let_def the_set_put_set_same)

lemma add_effect:
  assumes valid: "valid_set h self"
    and r: "add h self v = (e, h')"
  shows "set (indexed_values (the_set h self)) \<subseteq> set (indexed_values (the_set h' self))
      \<and> map fst (backend (the_set h' self)) = map fst (backend (the_set h self))
      \<and> valid_set h' t = valid_set h t
      \<and> (e = None \<and> backend (the_set h self) \<noteq> [] \<longrightarrow> v \<in> set (indexed_values (the_set h' self)))"
proof -
  obtain e2 h2 where b: "NamespaceSet_add h self v = (e2, h2)"
    by (cases "NamespaceSet_add h self v") auto
  note eff = NamespaceSet_add_effect [OF valid b]
  show ?thesis
  proof (cases e2)
    case None
    with r b have e: "e = None" and h': "h' = order_append h2 self v"
      by (auto simp: add_def)
    from eff [of self] valid have v2: "valid_set h2 self" by simp
    have iv: "indexed_values (the_set (order_append h2 self v) self) = indexed_values (the_set h2 self)"
      by (simp add: indexed_values_def backend_order_append [OF v2])
    from eff [of t] None show ?thesis
      by (simp add: iv e h' backend_order_append [OF v2] valid_set_order_append)
  next
    case (Some err)
    with r b have "e = Some err" "h' = h2" by (auto simp: add_def)
    with eff [of t] show ?thesis by simp
  qed
qed

lemma add_all_effect:
  assumes "valid_set h self" "backend (the_set h self) \<noteq> []" "add_all h self items = (e, h')"
  shows "set (added_items h self items) \<subseteq> set (indexed_values (the_set h' self))
      \<and> set (indexed_values (the_set h self)) \<subseteq> set (indexed_values (the_set h' self))
      \<and> map fst (backend (the_set h' self)) = map fst (backend (the_set h self))
      \<and> valid_set h' self"
  using assms
proof (induction items arbitrary: h)
  case Nil
  then show ?case by simp
next
  case (Cons i items)
  obtain e1 h1 where a: "add h self i = (e1, h1)" by (cases "add h self i") auto
  note eff = add_effect [OF Cons.prems(1) a, of self]
  show ?case
  proof (cases e1)
    case None
    with Cons.prems(3) a have rest: "add_all h1 self items = (e, h')" by simp
    from eff Cons.prems have v1: "valid_set h1 self" and b1: "backend (the_set h1 self) \<noteq> []"
      by auto
    from Cons.IH [OF v1 b1 rest] eff None Cons.prems(2) a show ?thesis
      by auto
  next
    case (Some err)
    with Cons.prems(3) a have "h' = h1" by simp
    with eff Some a Cons.prems show ?thesis by auto
  qed
qed

lemma fold_set_parent_the_set:
  "the_set (fold (\<lambda>x g. set_parent g x None) xs h) s = the_set h s"
  by (induction xs arbitrary: h) (simp_all add: the_set_set_parent)

lemma fold_set_parent_valid:
  "valid_set (fold (\<lambda>x g. set_parent g x None) xs h) s = valid_set h s"
  by (induction xs arbitrary: h) (simp_all add: valid_set_set_parent)

lemma fold_set_parent_parent:
  "parent (fold (\<lambda>x g. set_parent g x None) xs h y) = (if y \<in> set xs then None else parent (h y))"
  by (induction xs arbitrary: h) (auto simp: parent_set_parent)

lemma clear_effect:
  assumes "valid_set h self"
  shows "backend (the_set (clear h self) self) =
           map (\<lambda>(attr_name, (b, case_sensitive)). (attr_name, ([], case_sensitive))) (backend (the_set h self))"
    and "order (the_set (clear h self) self) = map_option (\<lambda>xs. []) (order (the_set h self))"
    and "parent (clear h self y) =
           (if y \<in> set (indexed_values (the_set h self)) then None else parent (h y))"
  using assms
  by (simp_all add: clear_def Let_def the_set_put_set_same fold_set_parent_valid
      fold_set_parent_the_set parent_put_set fold_set_parent_parent)

lemma entries_values_cleared:
  "entries_values (map (\<lambda>(attr_name, (b, case_sensitive)). (attr_name, ([], case_sensitive))) bk) = []"
  by (induction bk) (auto simp: entries_values_def)

lemma new_set_backend_nonempty: "attribute_names \<noteq> [] \<Longrightarrow> backend (new_set var attribute_names ordered) \<noteq> []"
proof -
  have "bk \<noteq> [] \<Longrightarrow> fold (\<lambda>(name, case_sensitive) bk. AList.update name ([], case_sensitive) bk) xs bk \<noteq> []"
    for xs :: "(string \<times> bool) list" and bk :: "(string \<times> (index_dict \<times> bool)) list"
  proof (induction xs arbitrary: bk)
    case Nil
    then show ?case by simp
  next
    case (Cons x xs)
    obtain n c where x: "x = (n, c)" by (cases x) auto
    from Cons.prems have "AList.update n ([], c) bk \<noteq> []" by (cases bk) auto
    from Cons.IH [OF this] x show ?case by simp
  qed
  moreover assume "attribute_names \<noteq> []"
  ultimately show ?thesis
    by (cases attribute_names) (auto simp: new_set_def)
qed

lemma register_set_the_set:
  "the_set (register_set h owner s) (owner, length (namespace_element_sets (h owner))) = s"
  by (simp add: the_set_def register_set_def)

lemma register_set_valid:
  "valid_set (register_set h owner s) (owner, length (namespace_element_sets (h owner)))"
  by (simp add: valid_set_def register_set_def)

lemma list_ex_iff_bex: "list_ex P xs \<longleftrightarrow> (\<exists>x \<in> set xs. P x)"
  by (simp add: list_ex_iff)

lemma upper_char_not_lower:
  "c \<notin> set ''abcdefghijklmnopqrstuvwxyz'' \<Longrightarrow> upper_char c = c"
  by (simp add: upper_char_def)

lemma upper_char_lower:
  "c \<in> set ''abcdefghijklmnopqrstuvwxyz'' \<Longrightarrow> upper_char c \<in> set ''ABCDEFGHIJKLMNOPQRSTUVWXYZ''"
  by (auto simp: upper_char_def)

lemma lower_is_letter: "c \<in> set ''abcdefghijklmnopqrstuvwxyz'' \<Longrightarrow> isalpha c"
  by (auto simp: isalpha_def ascii_letters_def)

lemma upper_is_letter: "c \<in> set ''ABCDEFGHIJKLMNOPQRSTUVWXYZ'' \<Longrightarrow> isalpha c"
  by (auto simp: isalpha_def ascii_letters_def)

lemma isalpha_word_char: "isalpha c \<Longrightarrow> word_char c"
  by (auto simp: isalpha_def word_char_def)

lemma same_upper_char:
  assumes "upper_char c = upper_char d"
  shows "c = d \<or> isalpha c"
proof (cases "c \<in> set ''abcdefghijklmnopqrstuvwxyz''")
  case True
  then show ?thesis by (simp add: lower_is_letter)
next
  case False
  then have c: "upper_char c = c" by (rule upper_char_not_lower)
  show ?thesis
  proof (cases "d \<in> set ''abcdefghijklmnopqrstuvwxyz''")
    case True
    from upper_char_lower [OF this] assms c have "c \<in> set ''ABCDEFGHIJKLMNOPQRSTUVWXYZ''" by simp
    then show ?thesis by (simp add: upper_is_letter)
  next
    case False
    then have "upper_char d = d" by (rule upper_char_not_lower)
    with assms c show ?thesis by simp
  qed
qed

lemma same_upper_word_chars:
  "upper s = upper t \<Longrightarrow> list_all word_char t \<Longrightarrow> list_all word_char s"
proof (induction s arbitrary: t)
  case Nil
  then show ?case by simp
next
  case (Cons c s)
  then obtain d t' where t: "t = d # t'" by (cases t) (auto simp: upper_def)
  with Cons.prems have "upper_char c = upper_char d" "upper s = upper t'"
    by (simp_all add: upper_def)
  with Cons.IH [of t'] Cons.prems(2) t same_upper_char [of c d] show ?case
    by (auto simp: isalpha_word_char)
qed

lemma same_upper_well_formed:
  assumes "upper s = upper t" "well_formed_id_short t"
  shows "well_formed_id_short s"
proof -
  from assms obtain d t' where t: "t = d # t'" by (cases t) (auto simp: well_formed_id_short_def)
  with assms(1) obtain c s' where s: "s = c # s'" by (cases s) (auto simp: upper_def)
  from assms(1) s t have "upper_char c = upper_char d" by (simp add: upper_def)
  with same_upper_char [of c d] assms(2) s t have "isalpha c"
    by (auto simp: well_formed_id_short_def)
  with same_upper_word_chars [OF assms(1)] assms(2) s show ?thesis
    by (simp add: well_formed_id_short_def)
qed

lemma has_key_eq: "has_key table x \<Longrightarrow> Key_from_referable table x = Inr (key_of table x)"
  by (auto simp: has_key_def key_of_def split: sum.splits)

lemma Key_init_Inr: "Key_init t v i = Inr k \<Longrightarrow> k = Key t v i"
  by (auto simp: Key_init_def split: if_splits)

lemma key_of_local:
  assumes "has_key table x" "\<not> isinstance x ''Identifiable''"
  shows "key_value (key_of table x) = id_short x" "key_id_type (key_of table x) = IDSHORT"
proof -
  from has_key_eq [OF assms(1)] assms(2)
  have "\<exists>t. Key_init t (id_short x) IDSHORT = Inr (key_of table x)"
    by (auto simp: Key_from_referable_def Let_def)
  then obtain t where "key_of table x = Key t (id_short x) IDSHORT"
    using Key_init_Inr by blast
  then show "key_value (key_of table x) = id_short x" "key_id_type (key_of table x) = IDSHORT"
    by simp_all
qed

lemma IdentifierType_of_KeyType_of: "IdentifierType_of (KeyType_of t) = Some t"
  by (cases t) (simp_all add: IdentifierType_of_def KeyType_of_def)

lemma KeyType_of_global: "\<not> is_local_key_type (KeyType_of t)"
  by (cases t) (simp_all add: is_local_key_type_def KeyType_of_def)

lemma key_of_global:
  assumes "has_key table x" "isinstance x ''Identifiable''"
  shows "get_identifier (key_of table x) = Some (identification x)"
proof -
  from has_key_eq [OF assms(1)] assms(2)
  have "\<exists>t. Key_init t (identifier_id (identification x))
          (KeyType_of (identifier_id_type (identification x))) = Inr (key_of table x)"
    by (auto simp: Key_from_referable_def Let_def)
  then obtain t where "key_of table x = Key t (identifier_id (identification x))
          (KeyType_of (identifier_id_type (identification x)))"
    using Key_init_Inr by blast
  then show ?thesis
    by (simp add: get_identifier_def KeyType_of_global IdentifierType_of_KeyType_of)
qed

lemma descends_append:
  "descends table h p (cs @ [c]) \<longleftrightarrow> descends table h p cs \<and> indexed_child table h (last (p # cs)) c"
  by (induction cs arbitrary: p) auto

text \<open>Climbing from the end of a chain collects the keys of the chain, the root's first.\<close>

lemma climb_chain:
  assumes "registered_root table h provider r"
  shows "descends table h r path \<Longrightarrow> length path < fuel \<Longrightarrow>
     climb fuel table h (last (r # path)) acc
       = Some (Inr (key_of table (h r) # map (\<lambda>c. key_of table (h c)) path @ rev acc))"
proof (induction path arbitrary: fuel acc rule: rev_induct)
  case Nil
  then obtain n where "fuel = Suc n" by (cases fuel) auto
  with assms show ?case
    by (simp add: registered_root_def has_key_eq)
next
  case (snoc c path)
  from snoc.prems(2) obtain n where fuel: "fuel = Suc n" and n: "length path < n"
    by (cases fuel) auto
  from snoc.prems(1) have d: "descends table h r path"
    and ic: "indexed_child table h (last (r # path)) c"
    by (simp_all add: descends_append)
  from ic have k: "Key_from_referable table (h c) = Inr (key_of table (h c))"
    and ni: "\<not> isinstance (h c) ''Identifiable''"
    and p: "parent (h c) = Some (last (r # path))"
    and pr: "isinstance (h (last (r # path))) ''Referable''"
    by (simp_all add: indexed_child_def has_key_eq)
  have "climb fuel table h (last (r # path @ [c])) acc
      = climb n table h (last (r # path)) (acc @ [key_of table (h c)])"
    using k ni p pr by (simp add: fuel)
  also have "\<dots> = Some (Inr (key_of table (h r) # map (\<lambda>c. key_of table (h c)) path
      @ rev (acc @ [key_of table (h c)])))"
    by (rule snoc.IH [OF d n])
  finally show ?case by simp
qed

lemma follow_chain:
  "descends table h p path \<Longrightarrow>
     follow h p rk (map (\<lambda>c. key_of table (h c)) path) = Inr (last (p # path))"
proof (induction path arbitrary: p)
  case Nil
  then show ?case by simp
next
  case (Cons c path)
  from Cons.prems have ic: "indexed_child table h p c" and d: "descends table h c path"
    by simp_all
  from ic have "key_value (key_of table (h c)) = id_short (h c)"
    by (simp add: indexed_child_def key_of_local)
  with ic Cons.IH [OF d] show ?case
    by (simp add: indexed_child_def)
qed

lemma local_keys_no_identifier:
  "descends table h p path \<Longrightarrow> last_identifier_index (map (\<lambda>c. key_of table (h c)) path) = None"
proof (induction path arbitrary: p)
  case Nil
  then show ?case by simp
next
  case (Cons c path)
  then have "key_id_type (key_of table (h c)) = IDSHORT"
    by (simp add: indexed_child_def key_of_local)
  with Cons show ?case
    by (auto simp: get_identifier_def is_local_key_type_def)
qed

lemma first_known_class_in_mro: "first_known_class table x = Some t \<Longrightarrow> isinstance x t"
  by (auto simp: first_known_class_def isinstance_def find_Some_iff)

lemma descends_last_referable:
  "descends table h p path \<Longrightarrow> isinstance (h p) ''Referable'' \<Longrightarrow>
     isinstance (h (last (p # path))) ''Referable''"
  by (induction path arbitrary: p) (auto simp: indexed_child_def)

lemma run_each_all:
  "\<forall>c \<in> set cs. f c = Some (g c, None) \<Longrightarrow> run_each f cs = Some (concat (map g cs), None)"
  by (induction cs) simp_all

lemma own_source_resolvable:
  "resolvable bm h y \<Longrightarrow> own_source bm call h y = (own_call bm call h y, None)"
  by (auto simp: resolvable_def own_source_def own_call_def backend_of_def split: sum.splits)

lemma concat_map_concat:
  "concat (map f (concat xss)) = concat (map (\<lambda>xs. concat (map f xs)) xss)"
  by (induction xss) simp_all

text \<open>Below an element, every object calls the backend of its own source, and only that.\<close>

lemma direct_source_commit_preorder:
  "bounded_depth n h x \<Longrightarrow> \<forall>y \<in> set (preorder n h x). resolvable bm h y \<Longrightarrow>
     direct_source_commit n bm h x = Some (concat (map (own_call bm Commit h) (preorder n h x)), None)"
proof (induction n arbitrary: x)
  case 0
  then show ?case by simp
next
  case (Suc n)
  have own: "own_source bm Commit h x = (own_call bm Commit h x, None)"
    using Suc.prems(2) by (simp add: own_source_resolvable)
  have "\<forall>c \<in> set (id_short_children (h x)).
      direct_source_commit n bm h c = Some (concat (map (own_call bm Commit h) (preorder n h c)), None)"
  proof
    fix c assume c: "c \<in> set (id_short_children (h x))"
    with Suc.prems(1) have b: "bounded_depth n h c" by (simp add: list_all_iff)
    from c Suc.prems(2) have "\<forall>y \<in> set (preorder n h c). resolvable bm h y" by auto
    with b show "direct_source_commit n bm h c
        = Some (concat (map (own_call bm Commit h) (preorder n h c)), None)"
      by (rule Suc.IH)
  qed
  then have "run_each (direct_source_commit n bm h) (id_short_children (h x))
      = Some (concat (map (\<lambda>c. concat (map (own_call bm Commit h) (preorder n h c)))
          (id_short_children (h x))), None)"
    by (rule run_each_all)
  with own show ?case by (simp add: concat_map_concat comp_def)
qed

lemma update_preorder:
  "bounded_depth n h x \<Longrightarrow> \<forall>y \<in> set (preorder n h x). resolvable bm h y \<Longrightarrow>
     update n bm h x True False = Some (concat (map (own_call bm Update h) (preorder n h x)), None)"
proof (induction n arbitrary: x)
  case 0
  then show ?case by simp
next
  case (Suc n)
  have own: "update_self (Suc n) bm h x False = Some (own_call bm Update h x, None)"
    using Suc.prems(2) by (simp add: update_self_def own_source_resolvable)
  have "\<forall>c \<in> set (id_short_children (h x)).
      update n bm h c True False = Some (concat (map (own_call bm Update h) (preorder n h c)), None)"
  proof
    fix c assume c: "c \<in> set (id_short_children (h x))"
    with Suc.prems(1) have b: "bounded_depth n h c" by (simp add: list_all_iff)
    from c Suc.prems(2) have "\<forall>y \<in> set (preorder n h c). resolvable bm h y" by auto
    with b show "update n bm h c True False
        = Some (concat (map (own_call bm Update h) (preorder n h c)), None)"
      by (rule Suc.IH)
  qed
  then have "run_each (\<lambda>c. update n bm h c True False) (id_short_children (h x))
      = Some (concat (map (\<lambda>c. concat (map (own_call bm Update h) (preorder n h c)))
          (id_short_children (h x))), None)"
    by (rule run_each_all)
  with own show ?case by (simp add: concat_map_concat comp_def)
qed

lemma upt_0_Suc: "[0 ..< Suc n] = 0 # map Suc [0 ..< n]"
  by (simp add: upt_conv_Cons map_Suc_upt del: upt_Suc)

lemma commit_ancestors_chain:
  "ancestor_chain h y ancestors \<Longrightarrow> \<forall>a \<in> set ancestors. resolvable bm h a \<Longrightarrow>
   length ancestors < fuel \<Longrightarrow>
     commit_ancestors fuel bm h x (parent (h y)) path
       = Some (concat (map (\<lambda>i.
                  if source (h (ancestors ! i)) \<noteq> []
                  then [Commit (backend_of bm h (ancestors ! i)) x (ancestors ! i)
                          (map (\<lambda>a. id_short (h a)) (rev (take i ancestors)) @ path)]
                  else [])
                [0 ..< length ancestors]), None)"
proof (induction ancestors arbitrary: y path fuel)
  case Nil
  then obtain n where "fuel = Suc n" by (cases fuel) auto
  with Nil show ?case by simp
next
  case (Cons a ancestors)
  from Cons.prems(3) obtain n where fuel: "fuel = Suc n" and n: "length ancestors < n"
    by (cases fuel) auto
  from Cons.prems(1) have p: "parent (h y) = Some a" and r: "isinstance (h a) ''Referable''"
    and ch: "ancestor_chain h a ancestors" by simp_all
  from Cons.prems(2) have res: "resolvable bm h a" and ress: "\<forall>a \<in> set ancestors. resolvable bm h a"
    by simp_all
  note IH = Cons.IH [OF ch ress n, of "id_short (h a) # path"]
  have gb: "source (h a) \<noteq> [] \<Longrightarrow> get_backend bm (source (h a)) = Inr (backend_of bm h a)"
    using res by (auto simp: resolvable_def backend_of_def split: sum.splits)
  show ?case
    using p r IH gb
    by (simp add: fuel upt_0_Suc comp_def del: upt_Suc cong: if_cong)
qed

lemmas h_sync_defs = h_sync_def mock_backends_def referable_def namespace_def id_set_def blank_def

lemmas sync_defs = commit_def own_source_def get_backend_def uri_scheme_def scheme_char_def
  isalpha_def ascii_letters_def id_short_children_def isinstance_def get_attribute_name_list_def
  iter_def update_self_def find_source_def

lemma h_sync_bounded: "bounded_depth 4 h_sync 2"
  by (simp add: eval_nat_numeral h_sync_defs sync_defs)

lemma h_sync_preorder: "preorder 4 h_sync 2 = [2, 3, 4]"
  by (simp add: eval_nat_numeral h_sync_defs sync_defs)

lemma h_sync_resolvable: "resolvable mock_backends h_sync y"
  by (simp add: resolvable_def h_sync_defs sync_defs)

lemmas h_ord_defs = h_ord_def referable_def namespace_def blank_def

lemmas ordered_defs = setitem_slice_def slice_bounds_def clamp_index_def the_order_def put_order_def
  NamespaceSet_remove_def delitem_def delitem_slice_def item_index_def getitem_def insert_at_def
  setitem_def iter_def indexed_values_def entries_values_def isinstance_def valid_set_def

lemma the_order_put_order: "valid_set h s \<Longrightarrow> the_order (put_order h s xs) s = xs"
  by (simp add: the_order_def put_order_def the_set_put_set_same)

lemma insert_read_back:
  assumes valid: "valid_set h self"
    and ok: "insert_at h self i x = (None, h')"
    and range: "0 \<le> i" "nat i \<le> length (the_order h self)"
  shows "getitem h' self i = Inr x"
proof -
  obtain h2 where a: "NamespaceSet_add h self x = (None, h2)"
    and h': "h' = put_order h2 self (take (clamp_index (length (the_order h2 self)) i) (the_order h2 self)
        @ [x] @ drop (clamp_index (length (the_order h2 self)) i) (the_order h2 self))"
    using ok by (auto simp: insert_at_def Let_def split: prod.splits option.splits)
  from NamespaceSet_add_effect [OF valid a, of self] valid
  have o: "the_order h2 self = the_order h self" and v2: "valid_set h2 self"
    by (simp_all add: the_order_def)
  from range have k: "clamp_index (length (the_order h self)) i = nat i"
    by (simp add: clamp_index_def)
  have xs: "the_order h' self = take (nat i) (the_order h self) @ [x] @ drop (nat i) (the_order h self)"
    by (simp add: h' the_order_put_order [OF v2] o k)
  from range have ii: "item_index (Suc (length (the_order h self))) i = Inr (nat i)"
    by (auto simp: item_index_def Let_def)
  from range have "(take (nat i) (the_order h self) @ [x] @ drop (nat i) (the_order h self)) ! nat i = x"
    by (simp add: nth_append)
  moreover from range have "length (take (nat i) (the_order h self) @ [x] @ drop (nat i) (the_order h self))
      = Suc (length (the_order h self))" by simp
  ultimately show ?thesis using ii by (simp only: getitem_def xs Let_def sum.case)
qed

text \<open>The definitions that an evaluation of add and of the constructor unfolds.\<close>

lemmas eval_defs = referable_def namespace_def blank_def NamespaceSet_init_def register_set_def new_set_def
  add_def NamespaceSet_add_def getattr_def isinstance_def get_attribute_def fold_case_def upper_simps upper_char_def
  the_set_def put_set_def set_parent_def order_append_def Let_def

section \<open>The effect of add, remove and the reconciliation loops on an id_short set\<close>




lemma getattr_data_of: "getattr (data_of x) a = getattr x a"
  by (simp add: getattr_def data_of_def isinstance_def)

lemma data_of_eq_getattr: "data_of x = data_of y \<Longrightarrow> getattr x a = getattr y a"
  by (metis getattr_data_of)















lemma merge_plain_keeps:
  "parent (merge_plain x y u) = parent x"
  "namespace_element_sets (merge_plain x y u) = namespace_element_sets x"
  "mro (merge_plain x y u) = mro x"
  by (simp_all add: merge_plain_def)

lemma merge_one_keeps:
  "parent (merge_one bs cs o' g y) = parent (g y)"
  "namespace_element_sets (merge_one bs cs o' g y) = namespace_element_sets (g y)"
  "mro (merge_one bs cs o' g y) = mro (g y)"
  by (simp_all add: merge_one_def merge_plain_keeps split: option.splits)


lemma merge_one_valid: "valid_set (merge_one bs cs o' g) s = valid_set g s"
  by (simp add: valid_set_def merge_one_keeps)




























section \<open>Claim C1: from_referable and resolve are inverse on indexed chains\<close>

lemmas h_tree_defs = h_tree_def provider_tree_def table_tree_def id_set_def blank_def

lemmas reference_defs = isinstance_def has_key_def Key_from_referable_def first_known_class_def
  Key_init_def is_local_key_type_def KeyType_of_def get_referable_def get_object_by_attribute_def
  upper_simps upper_char_def class_of_def

lemma h_tree_root: "registered_root table_tree h_tree provider_tree 0"
  by (simp add: registered_root_def h_tree_defs reference_defs)

lemma h_tree_chain: "descends table_tree h_tree 0 [1, 2]"
  by (simp add: indexed_child_def h_tree_defs reference_defs)

text \<open>The reference that is built for the property of the example.\<close>

lemma h_tree_from_referable:
  "from_referable 3 table_tree h_tree 2 =
     Some (Inr (AASReference
       [Key SUBMODEL ''urn:root'' KeyType_IRI, Key SUBMODEL_ELEMENT_COLLECTION ''Coll'' IDSHORT,
        Key PROPERTY ''Prop'' IDSHORT] ''Property''))"
  by (simp add: from_referable_def numeral_3_eq_3 h_tree_defs reference_defs)

text \<open>
  Claim C1. Let \<open>r\<close> be an Identifiable that the provider returns for its identifier, and
  let \<open>e\<close> be the last element of a chain that starts at \<open>r\<close> and in which every element is
  an indexed child of the one before it (its parent is a Referable
  UniqueIdShortNamespace whose lookup of the child's id_short yields the child, and the
  child is a Referable, carries no identifier of its own and has a Key). Then
  \<^verbatim>\<open>from_referable(e)\<close> returns a reference, given one step per element of the chain, and
  resolving that reference against the provider returns the address \<open>e\<close> itself.
\<close>

theorem round_trip:
  assumes root: "registered_root table h provider r"
    and chain: "descends table h r path"
    and e: "e = last (r # path)"
    and fuel: "length path < fuel"
  shows "\<exists>ref. from_referable fuel table h e = Some (Inr ref) \<and> resolve h provider ref = Inr e"
proof -
  define ref_type where
    "ref_type = (case first_known_class table (h e) of Some t \<Rightarrow> t | None \<Rightarrow> ''Referable'')"
  define keys where "keys = key_of table (h r) # map (\<lambda>c. key_of table (h c)) path"
  from climb_chain [OF root chain fuel, of "[]"] e
  have c: "climb fuel table h e [] = Some (Inr keys)" by (simp add: keys_def)
  then have fr: "from_referable fuel table h e = Some (Inr (AASReference keys ref_type))"
    by (simp add: from_referable_def ref_type_def)
  from root have gi: "get_identifier (key_of table (h r)) = Some (identification (h r))"
    by (simp add: registered_root_def key_of_global)
  with local_keys_no_identifier [OF chain]
  have li: "last_identifier_index keys = Some 0" by (simp add: keys_def)
  from root have "isinstance (h r) ''Referable''" by (simp add: registered_root_def)
  from descends_last_referable [OF chain this] e have "isinstance (h e) ''Referable''" by simp
  then have ty: "isinstance (h e) ref_type"
    by (auto simp: ref_type_def first_known_class_in_mro split: option.splits)
  from root have pr: "provider (identification (h r)) = Some r" by (simp add: registered_root_def)
  have "resolve h provider (AASReference keys ref_type) = Inr e"
    using li gi pr follow_chain [OF chain] e ty
    by (simp add: resolve_def keys_def)
  with fr show ?thesis by blast
qed

theorem round_trip_witness:
  "registered_root table_tree h_tree provider_tree 0
   \<and> descends table_tree h_tree 0 [1, 2]
   \<and> (\<exists>ref. from_referable 3 table_tree h_tree 2 = Some (Inr ref)
         \<and> resolve h_tree provider_tree ref = Inr 2)"
proof -
  have e: "(2 :: ref) = last (0 # [1, 2])" by simp
  have f: "length [1, 2 :: ref] < 3" by simp
  from round_trip [OF h_tree_root h_tree_chain e f] h_tree_root h_tree_chain
  show ?thesis by blast
qed

section \<open>Claim C2: what commit calls\<close>

text \<open>
  Claim C2 as stated fails on the example: \<^verbatim>\<open>E.commit()\<close> calls the backend of the parent
  \<^verbatim>\<open>P\<close> with the path \<^verbatim>\<open>[E]\<close> and the backend of the grandparent \<^verbatim>\<open>GP\<close> with the path
  \<^verbatim>\<open>[P, E]\<close>. Both ancestors are called, but neither path begins with the short-name of
  the ancestor that is called: the paths \<^verbatim>\<open>[P, E]\<close> for \<^verbatim>\<open>P\<close> and \<^verbatim>\<open>[GP, P, E]\<close> for \<^verbatim>\<open>GP\<close>
  do not occur.
\<close>

theorem commit_path_counterexample:
  "commit 4 mock_backends h_sync 2
     = Some ([Commit 0 2 1 [''E''], Commit 0 2 0 [''P'', ''E''], Commit 0 3 3 []], None)
   \<and> Commit 0 2 0 [''GP'', ''P'', ''E''] \<notin> set (fst (the (commit 4 mock_backends h_sync 2)))
   \<and> Commit 0 2 1 [''P'', ''E''] \<notin> set (fst (the (commit 4 mock_backends h_sync 2)))"
  by (simp add: eval_nat_numeral h_sync_defs sync_defs)

text \<open>
  Claim C2, amended. Let \<open>ancestors\<close> be the ancestors of \<open>x\<close>, the parent first, and let
  every source among them and among \<open>x\<close> and its descendants name a registered backend.
  Then \<^verbatim>\<open>commit\<close> returns, given a count above the number of ancestors and the depth
  below \<open>x\<close>, and its calls are, in this order: for every ancestor with a non-empty
  source, the nearest first, a commit to the backend of that source with the ancestor as
  store object and, as relative path, the short-names of the elements strictly below
  that ancestor down to \<open>x\<close> (so a deeper ancestor gets a longer path, and the ancestor's
  own short-name is not part of it); then, for \<open>x\<close> and each of its descendants through
  id_short sets, parents before children, a commit to the backend of its own source with
  itself as store object and an empty path, and no call for an object whose source is
  empty.
\<close>

theorem commit_walk:
  assumes "ancestor_chain h x ancestors"
    and "\<forall>a \<in> set ancestors. resolvable bm h a"
    and "\<forall>y \<in> set (preorder fuel h x). resolvable bm h y"
    and "length ancestors < fuel"
    and "bounded_depth fuel h x"
  shows "commit fuel bm h x
     = Some (ancestor_commits bm h x ancestors
             @ concat (map (own_call bm Commit h) (preorder fuel h x)), None)"
  using commit_ancestors_chain [OF assms(1,2,4), of x "[id_short (h x)]"]
    direct_source_commit_preorder [OF assms(5,3)]
  by (simp add: commit_def ancestor_commits_def)

theorem commit_walk_witness:
  "ancestor_chain h_sync 2 [1, 0]
   \<and> length [1, 0 :: ref] < 4
   \<and> bounded_depth 4 h_sync 2
   \<and> commit 4 mock_backends h_sync 2
       = Some (ancestor_commits mock_backends h_sync 2 [1, 0]
               @ concat (map (own_call mock_backends Commit h_sync) (preorder 4 h_sync 2)), None)"
proof -
  have c: "ancestor_chain h_sync 2 [1, 0]"
    by (simp add: h_sync_defs isinstance_def)
  have r: "\<forall>a \<in> set [1, 0]. resolvable mock_backends h_sync a"
    by (simp add: h_sync_resolvable)
  have p: "\<forall>y \<in> set (preorder 4 h_sync 2). resolvable mock_backends h_sync y"
    by (simp add: h_sync_resolvable)
  have f: "length [1, 0 :: ref] < 4" by simp
  from commit_walk [OF c r p f h_sync_bounded] c f h_sync_bounded show ?thesis by blast
qed

section \<open>Claim C3: what a recursive update calls\<close>

text \<open>
  Claim C3 as stated fails on the example. The child \<^verbatim>\<open>C2\<close> has no source of its own;
  walking its parent chain finds the source of \<^verbatim>\<open>P\<close> (with the path \<^verbatim>\<open>[P, E, C2]\<close>), yet
  the recursive update of \<^verbatim>\<open>E\<close> makes no call for \<^verbatim>\<open>C2\<close> at all: the children are updated
  with \<^verbatim>\<open>_indirect_source=False\<close>, which never looks for a source among the ancestors.
\<close>

theorem update_child_counterexample:
  "update 4 mock_backends h_sync 2 True True
     = Some ([Update 0 2 1 [''P'', ''E''], Update 0 3 3 []], None)
   \<and> find_source 4 h_sync 4 = Some (Inr (Some (1, [''P'', ''E'', ''C2''])))"
  by (simp add: eval_nat_numeral h_sync_defs sync_defs)

text \<open>
  Claim C3, amended. When the update of the element itself has made its calls \<open>evs\<close>
  without an exception, and every source among the descendants names a registered
  backend, then \<^verbatim>\<open>update(recursive=True)\<close> returns (given a count above the depth below
  the element) and its calls are \<open>evs\<close> followed, for each descendant through id_short
  sets, parents before children, by an update from the backend of the descendant's own
  source with the descendant itself as store object and an empty path, and by no call for
  a descendant whose source is empty: a child with a source of its own uses it, and a
  child without one inherits none.
\<close>

theorem update_recursive:
  assumes "update_self (Suc n) bm h x indirect_source = Some (evs, None)"
    and "bounded_depth (Suc n) h x"
    and "\<forall>y \<in> set (tl (preorder (Suc n) h x)). resolvable bm h y"
  shows "update (Suc n) bm h x True indirect_source
     = Some (evs @ concat (map (own_call bm Update h) (tl (preorder (Suc n) h x))), None)"
proof -
  have "\<forall>c \<in> set (id_short_children (h x)).
      update n bm h c True False = Some (concat (map (own_call bm Update h) (preorder n h c)), None)"
  proof
    fix c assume c: "c \<in> set (id_short_children (h x))"
    with assms(2) have b: "bounded_depth n h c" by (simp add: list_all_iff)
    from c assms(3) have "\<forall>y \<in> set (preorder n h c). resolvable bm h y" by auto
    with b show "update n bm h c True False
        = Some (concat (map (own_call bm Update h) (preorder n h c)), None)"
      by (rule update_preorder)
  qed
  then have "run_each (\<lambda>c. update n bm h c True False) (id_short_children (h x))
      = Some (concat (map (\<lambda>c. concat (map (own_call bm Update h) (preorder n h c)))
          (id_short_children (h x))), None)"
    by (rule run_each_all)
  with assms(1) show ?thesis by (simp add: concat_map_concat comp_def)
qed

theorem update_recursive_witness:
  "update_self 4 mock_backends h_sync 2 True = Some ([Update 0 2 1 [''P'', ''E'']], None)
   \<and> bounded_depth 4 h_sync 2
   \<and> update 4 mock_backends h_sync 2 True True
       = Some ([Update 0 2 1 [''P'', ''E'']]
               @ concat (map (own_call mock_backends Update h_sync) (tl (preorder 4 h_sync 2))), None)"
proof -
  have u: "update_self (Suc 3) mock_backends h_sync 2 True = Some ([Update 0 2 1 [''P'', ''E'']], None)"
    by (simp add: eval_nat_numeral h_sync_defs sync_defs)
  have b: "bounded_depth (Suc 3) h_sync 2"
    using h_sync_bounded by (simp add: eval_nat_numeral)
  have r: "\<forall>y \<in> set (tl (preorder (Suc 3) h_sync 2)). resolvable mock_backends h_sync y"
    by (simp add: h_sync_resolvable)
  have s: "Suc 3 = 4" by simp
  from update_recursive [OF u b r] u b show ?thesis unfolding s by blast
qed

section \<open>Claim C4: reconciling one set from another\<close>










section \<open>Claim C5: a failed bulk construction is rolled back\<close>

lemma h_bulk_fails:
  "fst (NamespaceSet_init h_bulk 0 ''value'' [(''id_short'', False)] False [1, 2, 3, 4])
     = Some (AttributePresent ''id_short'' (PyStr ''aBC'') True)"
  by (simp add: h_bulk_def eval_defs)

lemma h_bulk_added:
  "added_items (register_set h_bulk 0 (new_set ''value'' [(''id_short'', False)] False))
      (0, length (namespace_element_sets (h_bulk 0))) [1, 2, 3, 4] = [1, 2]"
  by (simp add: h_bulk_def eval_defs)

text \<open>
  Claim C5. When the construction of a set (with at least one attribute, as every set of
  the source has) fails because adding some item of the initial sequence raises, then
  afterwards every index dict of the new set is empty, iterating the set yields nothing,
  every item that had been added before the failure has no parent again, and the
  exception that propagates is the one the failing \<open>add\<close> raised. (The empty set itself
  stays registered with its owner: the constructor appends it before the first item is
  added and the rollback does not take it out.)
\<close>

theorem init_rollback:
  assumes attrs: "attribute_names \<noteq> []"
    and fails: "NamespaceSet_init h owner var attribute_names ordered items = (Some e, h')"
  shows "(\<forall>entry \<in> set (backend (the_set h' (owner, length (namespace_element_sets (h owner))))).
            fst (snd entry) = [])
     \<and> iter (the_set h' (owner, length (namespace_element_sets (h owner)))) = Inr []
     \<and> (\<forall>x \<in> set (added_items (register_set h owner (new_set var attribute_names ordered))
                      (owner, length (namespace_element_sets (h owner))) items).
           parent (h' x) = None)
     \<and> fst (add_all (register_set h owner (new_set var attribute_names ordered))
                (owner, length (namespace_element_sets (h owner))) items) = Some e"
proof -
  define self where "self = (owner, length (namespace_element_sets (h owner)))"
  define h1 where "h1 = register_set h owner (new_set var attribute_names ordered)"
  obtain h2 where all: "add_all h1 self items = (Some e, h2)" and h': "h' = clear h2 self"
    using fails
    by (auto simp: NamespaceSet_init_def Let_def self_def h1_def split: prod.splits option.splits)
  have v1: "valid_set h1 self" by (simp add: h1_def self_def register_set_valid)
  have b1: "backend (the_set h1 self) \<noteq> []"
    using attrs by (simp add: h1_def self_def register_set_the_set new_set_backend_nonempty)
  note eff = add_all_effect [OF v1 b1 all]
  then have v2: "valid_set h2 self" by simp
  note cl = clear_effect [OF v2]
  have bk: "\<forall>entry \<in> set (backend (the_set h' self)). fst (snd entry) = []"
    by (auto simp: h' cl(1))
  from eff b1 have "backend (the_set h2 self) \<noteq> []" by (metis map_is_Nil_conv)
  then have it: "iter (the_set h' self) = Inr []"
    by (cases "backend (the_set h2 self)")
       (auto simp: iter_def h' cl(1) cl(2) split: option.splits)
  from eff have par: "\<forall>x \<in> set (added_items h1 self items). parent (h' x) = None"
    by (auto simp: h' cl(3))
  from bk it par all show ?thesis
    by (simp add: self_def h1_def)
qed

theorem init_rollback_witness:
  "[(''id_short'', False)] \<noteq> []
   \<and> fst (NamespaceSet_init h_bulk 0 ''value'' [(''id_short'', False)] False [1, 2, 3, 4])
       = Some (AttributePresent ''id_short'' (PyStr ''aBC'') True)
   \<and> iter (the_set (snd (NamespaceSet_init h_bulk 0 ''value'' [(''id_short'', False)] False [1, 2, 3, 4]))
        (0, length (namespace_element_sets (h_bulk 0)))) = Inr []
   \<and> parent (snd (NamespaceSet_init h_bulk 0 ''value'' [(''id_short'', False)] False [1, 2, 3, 4]) 1) = None
   \<and> parent (snd (NamespaceSet_init h_bulk 0 ''value'' [(''id_short'', False)] False [1, 2, 3, 4]) 2) = None"
proof -
  have attrs: "[(''id_short'', False)] \<noteq> []" by simp
  have fails: "NamespaceSet_init h_bulk 0 ''value'' [(''id_short'', False)] False [1, 2, 3, 4]
      = (Some (AttributePresent ''id_short'' (PyStr ''aBC'') True),
         snd (NamespaceSet_init h_bulk 0 ''value'' [(''id_short'', False)] False [1, 2, 3, 4]))"
    using h_bulk_fails by (metis prod.collapse)
  note R = init_rollback [OF attrs fails]
  from R have it: "iter (the_set (snd (NamespaceSet_init h_bulk 0 ''value'' [(''id_short'', False)] False [1, 2, 3, 4]))
        (0, length (namespace_element_sets (h_bulk 0)))) = Inr []"
    by (rule conjunct2 [THEN conjunct1])
  from R have "\<forall>x \<in> set (added_items (register_set h_bulk 0 (new_set ''value'' [(''id_short'', False)] False))
                      (0, length (namespace_element_sets (h_bulk 0))) [1, 2, 3, 4]).
           parent (snd (NamespaceSet_init h_bulk 0 ''value'' [(''id_short'', False)] False [1, 2, 3, 4]) x) = None"
    by (rule conjunct2 [THEN conjunct2, THEN conjunct1])
  then have par: "\<forall>x \<in> set [1, 2].
           parent (snd (NamespaceSet_init h_bulk 0 ''value'' [(''id_short'', False)] False [1, 2, 3, 4]) x) = None"
    unfolding h_bulk_added .
  from attrs h_bulk_fails it par show ?thesis by simp
qed

section \<open>Claim C6: the contract of add\<close>

lemma h_add_valid:
  "valid_set h_add (0, 0)"
  by (simp add: valid_set_def h_add_def referable_def namespace_def blank_def)

lemma h_add_collides_2:
  "collides (h_add 2) (namespace_element_sets (h_add (fst ((0, 0) :: set_ref))))"
  by (simp add: h_add_def referable_def namespace_def blank_def collides_def entry_collides_def getattr_def isinstance_def
      fold_case_def upper_simps upper_char_def)

lemma h_add_collides_3:
  "\<not> collides (h_add 3) (namespace_element_sets (h_add (fst ((0, 0) :: set_ref))))"
  by (simp add: h_add_def referable_def namespace_def blank_def collides_def entry_collides_def getattr_def isinstance_def
      fold_case_def upper_simps upper_char_def)

lemma h_add_collides_4:
  "\<not> collides (h_add 4) (namespace_element_sets (h_add (fst ((0, 0) :: set_ref))))"
  by (simp add: h_add_def referable_def namespace_def blank_def collides_def entry_collides_def getattr_def isinstance_def
      fold_case_def upper_simps upper_char_def)

lemma h_add_parent_3:
  "parent (h_add 3) \<noteq> None \<and> parent (h_add 3) \<noteq> Some (fst ((0, 0) :: set_ref))"
  by (simp add: h_add_def referable_def namespace_def blank_def)

lemma h_add_parent_4:
  "parent (h_add 4) = None \<or> parent (h_add 4) = Some (fst ((0, 0) :: set_ref))"
  by (simp add: h_add_def referable_def namespace_def blank_def)

lemma h_add_attrs_4:
  "\<forall>e \<in> set (backend (the_set h_add (0, 0))). getattr (h_add 4) (fst e) \<noteq> None"
  by (simp add: h_add_def referable_def namespace_def blank_def the_set_def getattr_def isinstance_def)

text \<open>
  Two values that differ only by case collide in a case-insensitive index: the set of
  \<open>h_add\<close> holds \<^verbatim>\<open>Abc\<close>, and adding \<^verbatim>\<open>aBC\<close> raises the KeyError that names the attribute
  and the value, with the heap as it was.
\<close>

lemma add_case_variant_collides:
  "add h_add (0, 0) 2 = (Some (AttributePresent ''id_short'' (PyStr ''aBC'') True), h_add)"
  by (simp add: add_def NamespaceSet_add_def h_add_def referable_def namespace_def blank_def getattr_def isinstance_def
      fold_case_def upper_simps upper_char_def)

text \<open>
  Claim C6. For a set \<open>self\<close> of an owner and an item: (1) if in any set of the owner, for
  any attribute that set tracks, the item carries the attribute and its value (case-folded
  when the attribute is case-insensitive) is already a key of that attribute's index, then
  \<open>add\<close> raises the KeyError that names such an attribute and the item's value for it, and
  changes nothing; (2) if the item has a parent other than the owner, \<open>add\<close> fails and
  changes nothing (with the ValueError when there is no collision); (3) when \<open>add\<close>
  succeeds, the item's parent is the owner and the item is stored under every attribute
  this set tracks; (4) \<open>add\<close> does succeed when there is no collision, the item has no
  other parent and it carries every attribute of this set.
\<close>

theorem add_contract:
  assumes valid: "valid_set h self"
  shows
    "(collides (h item) (namespace_element_sets (h (fst self))) \<longrightarrow>
        (\<exists>s \<in> set (namespace_element_sets (h (fst self))). \<exists>e \<in> set (backend s). \<exists>t.
           entry_collides (h item) e \<and>
           add h self item =
             (Some (AttributePresent (fst e) (the (getattr (h item) (fst e))) t), h)))
     \<and> (parent (h item) \<noteq> None \<and> parent (h item) \<noteq> Some (fst self) \<longrightarrow>
          fst (add h self item) \<noteq> None \<and> snd (add h self item) = h
          \<and> (\<not> collides (h item) (namespace_element_sets (h (fst self))) \<longrightarrow>
               fst (add h self item) = Some HasParent))
     \<and> (\<forall>h'. add h self item = (None, h') \<longrightarrow>
          parent (h' item) = Some (fst self)
          \<and> (\<forall>(a, (b, c)) \<in> set (backend (the_set h' self)).
                \<exists>k. get_attribute (h' item) a c = Inr k \<and> map_of b k = Some item))
     \<and> (\<not> collides (h item) (namespace_element_sets (h (fst self)))
          \<and> (parent (h item) = None \<or> parent (h item) = Some (fst self))
          \<and> (\<forall>e \<in> set (backend (the_set h self)). getattr (h item) (fst e) \<noteq> None)
          \<longrightarrow> fst (add h self item) = None)"
proof (intro conjI impI allI)
  assume c: "collides (h item) (namespace_element_sets (h (fst self)))"
  then obtain err where err: "check_sets (h item) (snd self) 0 (namespace_element_sets (h (fst self))) = Some err"
    using check_sets_None [of "h item" "snd self" 0 "namespace_element_sets (h (fst self))"] by auto
  then have "add h self item = (Some err, h)"
    by (simp add: add_def NamespaceSet_add_def)
  with check_sets_Some [OF err] show
    "\<exists>s \<in> set (namespace_element_sets (h (fst self))). \<exists>e \<in> set (backend s). \<exists>t.
           entry_collides (h item) e \<and>
           add h self item =
             (Some (AttributePresent (fst e) (the (getattr (h item) (fst e))) t), h)"
    by auto
next
  assume p: "parent (h item) \<noteq> None \<and> parent (h item) \<noteq> Some (fst self)"
  then show "fst (add h self item) \<noteq> None"
    by (auto simp: add_def NamespaceSet_add_def split: option.splits)
  from p show "snd (add h self item) = h"
    by (auto simp: add_def NamespaceSet_add_def split: option.splits)
  assume "\<not> collides (h item) (namespace_element_sets (h (fst self)))"
  then have "check_sets (h item) (snd self) 0 (namespace_element_sets (h (fst self))) = None"
    by (simp add: check_sets_None)
  with p show "fst (add h self item) = Some HasParent"
    by (auto simp: add_def NamespaceSet_add_def)
next
  fix h'
  assume ok: "add h self item = (None, h')"
  then obtain h2 where h2: "NamespaceSet_add h self item = (None, h2)"
    and h': "h' = order_append h2 self item"
    by (auto simp: add_def split: prod.splits option.splits)
  note s = NamespaceSet_add_success [OF valid h2]
  show "parent (h' item) = Some (fst self)"
    by (simp add: h' parent_order_append s(1))
  from s(2) show "\<forall>(a, (b, c)) \<in> set (backend (the_set h' self)).
                \<exists>k. get_attribute (h' item) a c = Inr k \<and> map_of b k = Some item"
    by (simp add: h' backend_order_append [OF s(3)] get_attribute_order_append)
next
  assume a: "\<not> collides (h item) (namespace_element_sets (h (fst self)))
          \<and> (parent (h item) = None \<or> parent (h item) = Some (fst self))
          \<and> (\<forall>e \<in> set (backend (the_set h self)). getattr (h item) (fst e) \<noteq> None)"
  then have cs: "check_sets (h item) (snd self) 0 (namespace_element_sets (h (fst self))) = None"
    by (simp add: check_sets_None)
  have "fst (index_item (set_parent h item (Some (fst self)) item) item
          (backend (the_set (set_parent h item (Some (fst self))) self))) = None"
    using a by (intro index_item_total) (simp add: the_set_set_parent getattr_set_parent)
  with a cs show "fst (add h self item) = None"
    by (auto simp: add_def NamespaceSet_add_def Let_def split: prod.splits option.splits)
qed

theorem add_contract_witness:
  "valid_set h_add (0, 0)
   \<and> collides (h_add 2) (namespace_element_sets (h_add (fst ((0, 0) :: set_ref))))
   \<and> fst (add h_add (0, 0) 2) \<noteq> None \<and> snd (add h_add (0, 0) 2) = h_add
   \<and> fst (add h_add (0, 0) 3) = Some HasParent
   \<and> fst (add h_add (0, 0) 4) = None
   \<and> parent (snd (add h_add (0, 0) 4) 4) = Some 0"
proof -
  note T2 = add_contract [where self = "(0, 0)" and h = h_add and item = 2, OF h_add_valid]
  note T3 = add_contract [where self = "(0, 0)" and h = h_add and item = 3, OF h_add_valid]
  note T4 = add_contract [where self = "(0, 0)" and h = h_add and item = 4, OF h_add_valid]
  from T2 h_add_collides_2 have "\<exists>e. add h_add (0, 0) 2 = (Some e, h_add)" by blast
  then have r2: "fst (add h_add (0, 0) 2) \<noteq> None \<and> snd (add h_add (0, 0) 2) = h_add" by auto
  from T3 h_add_collides_3 h_add_parent_3 have r3: "fst (add h_add (0, 0) 3) = Some HasParent"
    by blast
  from T4 h_add_collides_4 h_add_parent_4 h_add_attrs_4 have r4: "fst (add h_add (0, 0) 4) = None"
    by blast
  then have "add h_add (0, 0) 4 = (None, snd (add h_add (0, 0) 4))"
    by (metis prod.collapse)
  with T4 have r5: "parent (snd (add h_add (0, 0) 4) 4) = Some (fst ((0, 0) :: set_ref))" by blast
  from h_add_valid h_add_collides_2 r2 r3 r4 r5 show ?thesis by simp
qed

section \<open>Claim C7: a colliding rename fails before anything is changed\<close>

lemmas h_ren_defs = h_ren_def referable_def namespace_def blank_def

text \<open>
  Claim C7. When an element has a parent and some set of the parent already holds the new
  id_short (as \<^verbatim>\<open>contains_id\<close> tests it), and the new value is not the element's current
  one, then the setter raises and the heap is exactly as before: no index entry was
  removed and the stored id_short is the old one, since the check comes before the
  detach, mutate and reattach steps. The exception is the KeyError of the collision
  whenever the new value passes the syntax checks that the setter makes first.
\<close>

theorem rename_collision:
  assumes "parent (h x) = Some p"
    and "\<exists>s \<in> set (namespace_element_sets (h p)). contains_id s ''id_short'' (PyStr new)"
    and "new \<noteq> id_short (h x)"
  shows "fst (set_id_short h x new) \<noteq> None
     \<and> snd (set_id_short h x new) = h
     \<and> (well_formed_id_short new \<longrightarrow> set_id_short h x new = (Some (IdShortPresent new), h))"
  using assms
  by (simp add: set_id_short_def well_formed_id_short_def list_ex_iff)

theorem rename_collision_witness:
  "parent (h_ren 2) = Some 0
   \<and> ''abc'' \<noteq> id_short (h_ren 2)
   \<and> well_formed_id_short ''abc''
   \<and> set_id_short h_ren 2 ''abc'' = (Some (IdShortPresent ''abc''), h_ren)"
proof -
  have p: "parent (h_ren 2) = Some 0" by (simp add: h_ren_defs)
  have c: "\<exists>s \<in> set (namespace_element_sets (h_ren 0)). contains_id s ''id_short'' (PyStr ''abc'')"
    by (simp add: h_ren_defs contains_id_def fold_case_def upper_simps upper_char_def)
  have d: "''abc'' \<noteq> id_short (h_ren 2)" by (simp add: h_ren_defs)
  have w: "well_formed_id_short ''abc''"
    by (simp add: well_formed_id_short_def word_char_def isalpha_def ascii_letters_def)
  from rename_collision [OF p c d] w p d show ?thesis by blast
qed

section \<open>Claim C8: the order of an OrderedNamespaceSet\<close>

text \<open>
  What holds: after \<^verbatim>\<open>insert(i, x)\<close> at a position of the list or at its end, position
  \<open>i\<close> reads \<open>x\<close> (lemma \<open>insert_read_back\<close>), and on the example insertion and the
  replacement of a single item leave the order that the operations describe.
\<close>

lemma insert_example:
  "fst (insert_at h_ord (0, 0) 1 3) = None
   \<and> iter (the_set (snd (insert_at h_ord (0, 0) 1 3)) (0, 0)) = Inr [1, 3, 2]
   \<and> getitem (snd (insert_at h_ord (0, 0) 1 3)) (0, 0) 1 = Inr 3"
  by (simp add: h_ord_defs ordered_defs eval_defs)

lemma setitem_example:
  "fst (setitem h_ord (0, 0) 1 3) = None
   \<and> iter (the_set (snd (setitem h_ord (0, 0) 1 3)) (0, 0)) = Inr [1, 3]
   \<and> parent (snd (setitem h_ord (0, 0) 1 3) 2) = None"
  by (simp add: h_ord_defs ordered_defs eval_defs)


text \<open>
  A deletion by a negative index is the slice from \<open>i\<close> to \<open>i + 1\<close>, which is empty for
  \<open>i = -1\<close>: \<^verbatim>\<open>del s[-1]\<close> removes nothing.
\<close>

lemma delitem_last_is_noop:
  "fst (delitem h_ord (0, 0) (- 1)) = None
   \<and> iter (the_set (snd (delitem h_ord (0, 0) (- 1))) (0, 0)) = Inr [1, 2]"
  by (simp add: h_ord_defs ordered_defs eval_defs)

text \<open>
  Claim C8, at the input where the code departs from it. The set holds \<^verbatim>\<open>A\<close> and \<^verbatim>\<open>B\<close>
  in this order, and \<^verbatim>\<open>s[0:2] = [C, D]\<close> succeeds. Afterwards \<^verbatim>\<open>C\<close> and \<^verbatim>\<open>D\<close> are
  indexed and owned by the namespace, but the order is empty: iteration yields nothing,
  where the operation performed asks for \<^verbatim>\<open>C, D\<close>. The loop that adds the new items has
  used up the iterator that is then assigned to the slice of \<^verbatim>\<open>_order\<close>.
\<close>

theorem slice_replacement_loses_order:
  "fst (setitem_slice h_ord (0, 0) (0, 2) [3, 4]) = None
   \<and> iter (the_set (snd (setitem_slice h_ord (0, 0) (0, 2) [3, 4])) (0, 0)) = Inr []
   \<and> indexed_values (the_set (snd (setitem_slice h_ord (0, 0) (0, 2) [3, 4])) (0, 0)) = [3, 4]
   \<and> parent (snd (setitem_slice h_ord (0, 0) (0, 2) [3, 4]) 3) = Some 0"
  by (simp add: h_ord_defs ordered_defs eval_defs)

section \<open>Claim C9: the failures of resolve\<close>

text \<open>An empty key sequence is an IndexError.\<close>

lemma resolve_empty: "reference_key r = [] \<Longrightarrow> resolve h provider r = Inl IndexError"
  by (simp add: resolve_def)

lemma last_identifier_index_Some:
  "last_identifier_index ks = Some i \<Longrightarrow> i < length ks \<and> get_identifier (ks ! i) \<noteq> None"
proof (induction ks arbitrary: i)
  case Nil
  then show ?case by simp
next
  case (Cons k ks)
  show ?case
  proof (cases "last_identifier_index ks")
    case None
    with Cons.prems show ?thesis by (auto split: if_splits)
  next
    case (Some j)
    with Cons.prems Cons.IH [OF Some] show ?thesis by auto
  qed
qed

text \<open>
  The identifier of the last global key is looked up in the provider; a miss is the
  KeyError that carries the identifier.
\<close>

lemma resolve_provider_miss:
  assumes "last_identifier_index (reference_key r) = Some i"
    and "get_identifier (reference_key r ! i) = Some identifier"
    and "provider identifier = None"
  shows "resolve h provider r = Inl (GlobalKeyUnresolved identifier)"
proof -
  from assms(1) have "reference_key r \<noteq> []" by auto
  with assms show ?thesis by (simp add: resolve_def)
qed

text \<open>
  When the walk arrives at an element that is not an instance of the target type, the
  error carries that element.
\<close>

lemma resolve_unexpected_type:
  assumes "last_identifier_index (reference_key r) = Some i"
    and "get_identifier (reference_key r ! i) = Some identifier"
    and "provider identifier = Some root"
    and "follow h root [str_Identifier identifier] (drop (Suc i) (reference_key r)) = Inr item"
    and "\<not> isinstance (h item) (reference_type r)"
  shows "resolve h provider r = Inl (UnexpectedTypeError item)"
proof -
  from assms(1) have "reference_key r \<noteq> []" by auto
  with assms show ?thesis by (simp add: resolve_def)
qed

text \<open>
  The TypeError of the walk carries \<^verbatim>\<open>resolved_keys\<close> as it was before the walk began,
  however many keys were followed: the source never appends to the list inside the loop.
\<close>

lemma follow_type_error_path:
  "follow h item resolved_keys ks = Inl (NotANamespace path) \<Longrightarrow> path = resolved_keys"
  by (induction ks arbitrary: item) (auto split: if_splits sum.splits)

lemma resolve_type_error_names_root_only:
  assumes "resolve h provider r = Inl (NotANamespace path)"
  shows "\<exists>identifier. path = [str_Identifier identifier]"
proof -
  from assms obtain i ident root where
    "follow h root [str_Identifier ident] (drop (Suc i) (reference_key r)) = Inl (NotANamespace path)"
    by (auto simp: resolve_def split: if_splits option.splits sum.splits)
  then show ?thesis by (auto dest: follow_type_error_path)
qed

text \<open>
  Claim C9, at the input where the code departs from it. The keys lead from the submodel
  through \<^verbatim>\<open>Coll\<close> to \<^verbatim>\<open>Prop\<close>, which is no namespace, and one key further. The walk has
  followed \<^verbatim>\<open>urn:root / Coll / Prop\<close>, but the TypeError names the identifier of the root
  alone.
\<close>

theorem resolve_type_error_path:
  "resolve h_tree provider_tree
     (AASReference
        [Key SUBMODEL ''urn:root'' KeyType_IRI, Key SUBMODEL_ELEMENT_COLLECTION ''Coll'' IDSHORT,
         Key PROPERTY ''Prop'' IDSHORT, Key PROPERTY ''x'' IDSHORT] ''Property'')
   = Inl (NotANamespace [''Identifier(IRI=urn:root)''])"
  by (simp add: resolve_def get_identifier_def IdentifierType_of_def str_Identifier_def
      IdentifierType_name_def h_tree_defs reference_defs)

section \<open>Claim C10: renaming to a case variant of the own name\<close>

text \<open>
  Claim C10. An element that is indexed by its id_short in a case-insensitive set of its
  parent, and whose id_short is well formed, cannot be renamed to a value that differs
  from the current one by letter case only: the folded new value is the key of the
  element's own index entry, so the setter raises the KeyError of a collision, and the
  heap (the id_short with it) stays as it was. No other element is involved.
\<close>

theorem rename_case_variant:
  assumes par: "parent (h x) = Some p"
    and member: "s \<in> set (namespace_element_sets (h p))"
    and insensitive: "map_of (backend s) ''id_short'' = Some (b, False)"
    and indexed: "map_of b (PyStr (upper (id_short (h x)))) = Some x"
    and wf: "well_formed_id_short (id_short (h x))"
    and differs: "new \<noteq> id_short (h x)"
    and same: "upper new = upper (id_short (h x))"
  shows "set_id_short h x new = (Some (IdShortPresent new), h)"
proof -
  from insensitive indexed same have "contains_id s ''id_short'' (PyStr new)"
    by (simp add: contains_id_def fold_case_def)
  with member have ex: "\<exists>s \<in> set (namespace_element_sets (h p)). contains_id s ''id_short'' (PyStr new)"
    by blast
  from same wf have "well_formed_id_short new" by (rule same_upper_well_formed)
  with par ex differs show ?thesis
    by (simp add: set_id_short_def well_formed_id_short_def list_ex_iff)
qed

theorem rename_case_variant_witness:
  "parent (h_ren 1) = Some 0
   \<and> well_formed_id_short (id_short (h_ren 1))
   \<and> ''ABC'' \<noteq> id_short (h_ren 1)
   \<and> upper ''ABC'' = upper (id_short (h_ren 1))
   \<and> set_id_short h_ren 1 ''ABC'' = (Some (IdShortPresent ''ABC''), h_ren)"
proof -
  have p: "parent (h_ren 1) = Some 0" by (simp add: h_ren_defs)
  have m: "the_set h_ren (0, 0) \<in> set (namespace_element_sets (h_ren 0))"
    by (simp add: h_ren_defs the_set_def)
  have i: "map_of (backend (the_set h_ren (0, 0))) ''id_short''
      = Some ([(PyStr ''ABC'', 1), (PyStr ''XYZ'', 2)], False)"
    by (simp add: h_ren_defs the_set_def)
  have u: "upper ''ABC'' = upper (id_short (h_ren 1))"
    by (simp add: h_ren_defs upper_simps upper_char_def)
  have x: "map_of [(PyStr ''ABC'', 1), (PyStr ''XYZ'', 2 :: nat)] (PyStr (upper (id_short (h_ren 1)))) = Some 1"
    by (simp add: h_ren_defs upper_simps upper_char_def)
  have w: "well_formed_id_short (id_short (h_ren 1))"
    by (simp add: h_ren_defs well_formed_id_short_def word_char_def isalpha_def ascii_letters_def)
  have d: "''ABC'' \<noteq> id_short (h_ren 1)" by (simp add: h_ren_defs)
  from rename_case_variant [OF p m i x w d u] p w d u show ?thesis by blast
qed

end
